theory Spec2Isabelle
  imports Main
begin

section \<open>Characters and C strings\<close>

text \<open>
  Both programs handle text as sequences of bytes. A \<^typ>\<open>string\<close> is a list of
  \<^typ>\<open>char\<close>, and a \<^typ>\<open>char\<close> is one byte. The classification functions follow the
  C locale, which is what \<open>isspace\<close>, \<open>tolower\<close> and the stream extraction of the
  host use.
\<close>

definition NUL :: char where
  "NUL = CHR 0x00"

definition LF :: char where
  "LF = CHR 0x0A"

definition CR :: char where
  "CR = CHR 0x0D"

definition TAB :: char where
  "TAB = CHR 0x09"

definition isspace :: "char \<Rightarrow> bool" where
  \<comment> \<open>space, \<open>\t\<close>, \<open>\n\<close>, \<open>\v\<close>, \<open>\f\<close>, \<open>\r\<close>\<close>
  "isspace c = (c = CHR '' '' \<or> c = CHR 0x09 \<or> c = CHR 0x0A \<or> c = CHR 0x0B
                \<or> c = CHR 0x0C \<or> c = CHR 0x0D)"

definition isdigit :: "char \<Rightarrow> bool" where
  "isdigit c = (48 \<le> (of_char c :: nat) \<and> (of_char c :: nat) \<le> 57)"

definition digit_val :: "char \<Rightarrow> int" where
  "digit_val c = int (of_char c) - 48"

definition tolower :: "char \<Rightarrow> char" where
  "tolower c = (let n = (of_char c :: nat) in
                if 65 \<le> n \<and> n \<le> 90 then char_of (n + 32) else c)"

definition toupper :: "char \<Rightarrow> char" where
  "toupper c = (let n = (of_char c :: nat) in
                if 97 \<le> n \<and> n \<le> 122 then char_of (n - 32) else c)"

text \<open>
  A C string ends at its first NUL byte: \<open>strlen\<close>, \<open>fputs\<close> and the trimming code see
  only what comes before it.
\<close>

definition cstr :: "string \<Rightarrow> string" where
  "cstr buf = takeWhile (\<lambda>c. c \<noteq> NUL) buf"

definition strlen :: "string \<Rightarrow> nat" where
  "strlen buf = length (cstr buf)"

text \<open>\<open>stricmp\<close>: compare two C strings ignoring letter case; zero means equal.\<close>

fun stricmp :: "string \<Rightarrow> string \<Rightarrow> int" where
  "stricmp [] [] = 0"
| "stricmp [] (b # bs) = - int (of_char (tolower b))"
| "stricmp (a # as) [] = int (of_char (tolower a))"
| "stricmp (a # as) (b # bs) =
     (if tolower a = tolower b then stricmp as bs
      else int (of_char (tolower a)) - int (of_char (tolower b)))"

text \<open>Decimal value of a run of digits, and the decimal text of an integer (\<open>%d\<close>).\<close>

definition dec_val :: "string \<Rightarrow> int" where
  "dec_val ds = foldl (\<lambda>a c. 10 * a + digit_val c) 0 ds"

fun dec_nat :: "nat \<Rightarrow> string" where
  "dec_nat n = (if n < 10 then [char_of (48 + n)]
                else dec_nat (n div 10) @ [char_of (48 + n mod 10)])"

definition dec_int :: "int \<Rightarrow> string" where
  "dec_int i = (if i < 0 then CHR ''-'' # dec_nat (nat (- i)) else dec_nat (nat i))"

definition INT_MIN :: int where
  "INT_MIN = - 2147483648"

definition INT_MAX :: int where
  "INT_MAX = 2147483647"

text \<open>
  The common front of \<open>atoi\<close>, \<open>std::stoi\<close> and \<open>operator>>\<close> on an \<open>int\<close>: skip
  leading white space, read an optional sign, then the longest run of decimal digits.
  The result is \<open>None\<close> when there is no digit, and the mathematical value otherwise.
\<close>

definition scan_int :: "string \<Rightarrow> int option" where
  "scan_int s =
     (let t = dropWhile isspace s;
          neg = (t \<noteq> [] \<and> hd t = CHR ''-'');
          u = (if t \<noteq> [] \<and> (hd t = CHR ''-'' \<or> hd t = CHR ''+'') then tl t else t);
          ds = takeWhile isdigit u
      in if ds = [] then None
         else Some (if neg then - dec_val ds else dec_val ds))"

definition wrap32 :: "int \<Rightarrow> int" where
  \<comment> \<open>the value that the low 32 bits hold, read as a signed \<open>int\<close>\<close>
  "wrap32 v = (v + 2147483648) mod 4294967296 - 2147483648"

definition atoi32 :: "string \<Rightarrow> int" where
  \<comment> \<open>\<open>atoi\<close> as a build with a 32-bit \<open>int\<close> that wraps around has it. No digits give
      0. C leaves the result undefined when the value does not fit \<open>int\<close>, and the builds
      differ there, so the guest below takes its \<open>atoi\<close> as a parameter; this one serves
      as a sample.\<close>
  "atoi32 s = (case scan_int s of None \<Rightarrow> 0 | Some v \<Rightarrow> wrap32 v)"

definition stoi :: "string \<Rightarrow> int option" where
  \<comment> \<open>\<open>std::stoi\<close> throws \<open>invalid_argument\<close> without digits and \<open>out_of_range\<close> when
      the value does not fit \<open>int\<close>; both are \<open>None\<close>.\<close>
  "stoi s = (case scan_int s of None \<Rightarrow> None
             | Some v \<Rightarrow> if INT_MIN \<le> v \<and> v \<le> INT_MAX then Some v else None)"

definition extract_int :: "string \<Rightarrow> int option" where
  \<comment> \<open>\<open>iss >> v\<close> for \<open>int v\<close>, tested as a condition: the extraction fails (the stream's
      failbit is set) without digits and when the value does not fit \<open>int\<close>.\<close>
  "extract_int s = (case scan_int s of None \<Rightarrow> None
                    | Some v \<Rightarrow> if INT_MIN \<le> v \<and> v \<le> INT_MAX then Some v else None)"

section \<open>Host: parsing the return-code slot\<close>

definition parseReturnCode :: "string \<Rightarrow> int option" where
  "parseReturnCode s =
     (let t = map (\<lambda>c. if c = CR \<or> c = LF \<or> c = TAB then CHR '' '' else c) s
      in extract_int t)"

section \<open>Guest: the idle interval\<close>

text \<open>
  \<open>main\<close> of the guest starts from \<open>idle_ms = 100\<close> and takes \<open>argv[1]\<close>, when given,
  only if \<open>int v = atoi(argv[1])\<close> lies between 10 and 2000. The argument list here is
  \<open>argv\<close> without the program name. \<open>atoi\<close> is the C library's, which is not part of the
  source: it is a parameter, so that what follows holds whatever the library returns,
  also for a text whose value does not fit the build's \<open>int\<close>.
\<close>

definition main_idle_ms :: "(string \<Rightarrow> int) \<Rightarrow> string list \<Rightarrow> int" where
  "main_idle_ms atoi args =
     (case args of
        [] \<Rightarrow> 100
      | a # _ \<Rightarrow> (let v = atoi a in if v \<ge> 10 \<and> v \<le> 2000 then v else 100))"

text \<open>The interval as the specification words it: the configured value clamped.\<close>

definition clamp_idle_spec :: "int \<Rightarrow> int" where
  "clamp_idle_spec v = max 10 (min 2000 v)"

section \<open>Guest: the mailbox directory and the C library calls\<close>

text \<open>
  The guest sees the shared directory as a map from file names to contents. A content
  is the character sequence that the C text streams deliver or accept; the translation
  between \<open>\n\<close> and CR LF that the DOS runtime performs on disk lies below this model.
  \<open>int\<close> is taken to be 32 bits wide, as on the DJGPP target.

  \<^item> \<open>files\<close>: the directory;
  \<^item> \<open>nowrite\<close>: the names that \<open>fopen\<close> cannot open for writing or appending;
  \<^item> \<open>logged\<close>: the messages appended to \<open>LOG.TXT\<close>, in order, without their
    time stamps;
  \<^item> \<open>trace\<close>: the calls that change the directory, start the interpreter or sleep,
    in order;
  \<^item> \<open>errno\<close>: the C library's error number as it stands when a message is formatted;
    it is an input of the model and nothing below depends on its value.
\<close>

datatype event =
    EvFopenW string
  | EvRemove string
  | EvRename string string
  | EvSystem string
  | EvSleep nat

record gstate =
  files :: "string \<rightharpoonup> string"
  nowrite :: "string set"
  logged :: "string list"
  trace :: "event list"
  errno :: int

text \<open>
  What the guest is given from outside: the two environment variables it reads, and the
  command interpreter behind \<open>system\<close>, which takes the command line and the directory
  and returns its status and the directory it leaves.
\<close>

record genv =
  comspec :: "string option"
  mbx_stderr :: "string option"
  shell :: "string \<Rightarrow> (string \<rightharpoonup> string) \<Rightarrow> int \<times> (string \<rightharpoonup> string)"

definition CMD_TXT :: string where "CMD_TXT = ''CMD.TXT''"
definition CMD_RUN :: string where "CMD_RUN = ''CMD.RUN''"
definition OUT_TXT :: string where "OUT_TXT = ''OUT.TXT''"
definition OUT_NEW :: string where "OUT_NEW = ''OUT.NEW''"
definition RC_TXT :: string where "RC_TXT = ''RC.TXT''"
definition RC_NEW :: string where "RC_NEW = ''RC.NEW''"
definition STA_TXT :: string where "STA_TXT = ''STA.TXT''"
definition STA_NEW :: string where "STA_NEW = ''STA.NEW''"
definition LOG_TXT :: string where "LOG_TXT = ''LOG.TXT''"
definition JOB_BAT :: string where "JOB_BAT = ''MBXJOB.BAT''"

definition MAX_LINE :: nat where "MAX_LINE = 512"
definition MAX_PAYLOAD :: int where "MAX_PAYLOAD = 32 * 1024"

definition CRLF :: string where "CRLF = [CR, LF]"

definition ms_sleep :: "nat \<Rightarrow> gstate \<Rightarrow> gstate" where
  "ms_sleep ms s = s\<lparr>trace := trace s @ [EvSleep ms]\<rparr>"

definition file_exists :: "string \<Rightarrow> gstate \<Rightarrow> bool" where
  \<comment> \<open>\<open>access(path, 0) == 0\<close>\<close>
  "file_exists path s = (files s path \<noteq> None)"

definition c_remove :: "string \<Rightarrow> gstate \<Rightarrow> gstate" where
  \<comment> \<open>\<open>remove\<close>; the source never looks at its result\<close>
  "c_remove path s = s\<lparr>files := (files s)(path := None), trace := trace s @ [EvRemove path]\<rparr>"

definition c_rename :: "string \<Rightarrow> string \<Rightarrow> gstate \<Rightarrow> bool \<times> gstate" where
  \<comment> \<open>\<open>rename(old, new) == 0\<close>: DOS refuses when \<open>old\<close> is missing or \<open>new\<close> exists\<close>
  "c_rename old new s =
     (let s' = s\<lparr>trace := trace s @ [EvRename old new]\<rparr>
      in case files s old of
           None \<Rightarrow> (False, s')
         | Some c \<Rightarrow>
             if files s new \<noteq> None then (False, s')
             else (True, s'\<lparr>files := (files s)(old := None, new \<mapsto> c)\<rparr>))"

definition fopen_w :: "string \<Rightarrow> gstate \<Rightarrow> bool \<times> gstate" where
  \<comment> \<open>\<open>fopen(path, "wt")\<close>: creates or truncates the file; \<open>False\<close> is the null stream\<close>
  "fopen_w path s =
     (let s' = s\<lparr>trace := trace s @ [EvFopenW path]\<rparr>
      in if path \<in> nowrite s then (False, s')
         else (True, s'\<lparr>files := (files s)(path \<mapsto> [])\<rparr>))"

definition fputs :: "string \<Rightarrow> string \<Rightarrow> gstate \<Rightarrow> gstate" where
  \<comment> \<open>\<open>fputs(text, f)\<close> on the stream opened for \<open>path\<close>; \<open>fprintf\<close> with its arguments
      already formatted is the same\<close>
  "fputs text path s =
     s\<lparr>files := (files s)(path \<mapsto> (case files s path of None \<Rightarrow> [] | Some c \<Rightarrow> c) @ text)\<rparr>"

definition log_line :: "string \<Rightarrow> gstate \<Rightarrow> gstate" where
  "log_line msg s = (if LOG_TXT \<in> nowrite s then s else s\<lparr>logged := logged s @ [msg]\<rparr>)"

text \<open>
  \<open>fgets(buf, n, f)\<close> on the rest of a stream: \<open>None\<close> at end of file; otherwise at most
  \<open>n - 1\<close> characters, stopping after a line feed, and the rest of the stream.
\<close>

fun fgets_take :: "nat \<Rightarrow> string \<Rightarrow> string \<times> string" where
  "fgets_take 0 s = ([], s)"
| "fgets_take (Suc k) [] = ([], [])"
| "fgets_take (Suc k) (c # s) =
     (if c = LF then ([c], s)
      else (case fgets_take k s of (a, r) \<Rightarrow> (c # a, r)))"

definition fgets :: "nat \<Rightarrow> string \<Rightarrow> (string \<times> string) option" where
  "fgets n s = (if s = [] then None else Some (fgets_take (n - 1) s))"

definition strip_eol :: "string \<Rightarrow> string" where
  \<comment> \<open>drop the trailing \<open>\r\<close> and \<open>\n\<close>\<close>
  "strip_eol b = rev (dropWhile (\<lambda>c. c = CR \<or> c = LF) (rev b))"

definition trim :: "string \<Rightarrow> string" where
  "trim b = rev (dropWhile isspace (rev (dropWhile isspace b)))"

lemma fgets_take_length: "fgets_take k s = (a, r) \<Longrightarrow> length a + length r = length s"
  by (induction k s arbitrary: a r rule: fgets_take.induct) (auto split: if_splits prod.splits)

lemma fgets_take_progress: "0 < k \<Longrightarrow> s \<noteq> [] \<Longrightarrow> fgets_take k s = (a, r) \<Longrightarrow> a \<noteq> []"
  by (cases k; cases s) (auto split: if_splits prod.splits)

lemma fgets_shorter: "fgets MAX_LINE s = Some (a, r) \<Longrightarrow> length r < length s"
proof -
  assume h: "fgets MAX_LINE s = Some (a, r)"
  then have ne: "s \<noteq> []" and t: "fgets_take 511 s = (a, r)"
    by (auto simp: fgets_def MAX_LINE_def split: if_splits)
  from fgets_take_progress [OF _ ne t] have "a \<noteq> []" by simp
  with fgets_take_length [OF t] show ?thesis by (cases a) auto
qed

function first_nonempty :: "string \<Rightarrow> string option" where
  "first_nonempty rest =
     (case fgets MAX_LINE rest of
        None \<Rightarrow> None
      | Some (buf, rest') \<Rightarrow>
          (let b = trim (strip_eol (cstr buf))
           in if b \<noteq> [] then Some b else first_nonempty rest'))"
  by pat_completeness auto
termination
  by (relation "measure length") (auto dest: fgets_shorter)

declare first_nonempty.simps [simp del]

definition read_first_nonempty_line :: "string \<Rightarrow> gstate \<Rightarrow> string option" where
  \<comment> \<open>\<open>Some\<close> of the buffer when the source returns 1, \<open>None\<close> when it returns 0\<close>
  "read_first_nonempty_line path s =
     (case files s path of None \<Rightarrow> None | Some c \<Rightarrow> first_nonempty c)"

definition write_text_atomic :: "string \<Rightarrow> string \<Rightarrow> string \<Rightarrow> gstate \<Rightarrow> bool \<times> gstate" where
  "write_text_atomic temp final text s =
     (let s1 = c_remove temp s;
          (ok, s2) = fopen_w temp s1
      in if \<not> ok then (False, s2)
         else (let s3 = fputs text temp s2;
                   s4 = fputs CRLF temp s3;
                   s5 = c_remove final s4
               in c_rename temp final s5))"

definition set_status :: "string \<Rightarrow> gstate \<Rightarrow> gstate" where
  "set_status state s =
     (let (ok, s1) = write_text_atomic STA_NEW STA_TXT state s
      in if \<not> ok then log_line ''WARN: failed to write STA.TXT'' s1 else s1)"

fun claim_loop :: "nat \<Rightarrow> gstate \<Rightarrow> bool \<times> gstate" where
  "claim_loop 0 s = (False, s)"
| "claim_loop (Suc n) s =
     (if \<not> file_exists CMD_TXT s then (False, s)
      else (let (ok, s1) = c_rename CMD_TXT CMD_RUN s
            in if ok then (True, s1) else claim_loop n (ms_sleep 50 s1)))"

definition claim_cmd :: "gstate \<Rightarrow> bool \<times> gstate" where
  \<comment> \<open>the loop of the source counts its twenty tries upwards\<close>
  "claim_cmd s = claim_loop 20 (c_remove CMD_RUN s)"

section \<open>Guest: building the job, running it, publishing the results\<close>

text \<open>
  The copy loop of \<open>build_job_bat_from_cmd\<close>: the rest of the command stream, the
  running total and the state. It returns whether the payload fitted, the total, and
  the state with \<open>MBXJOB.BAT\<close> written so far.
\<close>

function copy_payload :: "string \<Rightarrow> int \<Rightarrow> gstate \<Rightarrow> bool \<times> int \<times> gstate" where
  "copy_payload rest tot s =
     (case fgets MAX_LINE rest of
        None \<Rightarrow> (True, tot, s)
      | Some (line, rest') \<Rightarrow>
          (let len = int (strlen line)
           in if tot + len > MAX_PAYLOAD
              then (False, tot,
                    fputs (''echo 1 > '' @ RC_NEW @ CRLF) JOB_BAT
                      (fputs (''rem ERROR: payload too large'' @ CRLF) JOB_BAT s))
              else copy_payload rest' (tot + len) (fputs (cstr line) JOB_BAT s)))"
  by pat_completeness auto
termination
  by (relation "measure (\<lambda>(rest, tot, s). length rest)") (auto dest: fgets_shorter)

declare copy_payload.simps [simp del]

definition build_job_bat_from_cmd :: "string \<Rightarrow> gstate \<Rightarrow> bool \<times> int \<times> gstate" where
  \<comment> \<open>the result of the source, the value left in \<open>*out_payload_bytes\<close> (which \<open>main\<close>
      initialises to 0), and the state\<close>
  "build_job_bat_from_cmd cmd_path s =
     (let s1 = c_remove RC_NEW (c_remove JOB_BAT s)
      in case files s1 cmd_path of
           None \<Rightarrow> (False, 0, s1)
         | Some content \<Rightarrow>
             (let (ok, s2) = fopen_w JOB_BAT s1
              in if \<not> ok then (False, 0, s2)
                 else (let s3 = fputs (''@echo off'' @ CRLF) JOB_BAT s2;
                           s4 = fputs (''rem MBXSRV job wrapper'' @ CRLF) JOB_BAT s3;
                           (fits, tot, s5) = copy_payload content 0 s4
                       in if \<not> fits then (False, tot, s5)
                          else (let s6 = fputs (CRLF @ ''rem Capture ERRORLEVEL of last command'' @ CRLF)
                                           JOB_BAT s5;
                                    s7 = fputs (''echo %errorlevel% > '' @ RC_NEW @ CRLF) JOB_BAT s6
                                in (True, tot, s7)))))"

definition exec_job_to_out :: "genv \<Rightarrow> gstate \<Rightarrow> int \<times> gstate" where
  "exec_job_to_out env s =
     (let shell_name = (case comspec env of
                          None \<Rightarrow> ''COMMAND.COM''
                        | Some c \<Rightarrow> if c = [] then ''COMMAND.COM'' else c);
          s1 = c_remove OUT_NEW s;
          cmd = shell_name @ '' /C '' @ JOB_BAT @ '' > '' @ OUT_NEW
                @ (case mbx_stderr env of
                     None \<Rightarrow> []
                   | Some v \<Rightarrow> if v \<noteq> [] \<and> hd v = CHR ''1'' then '' 2>&1'' else []);
          (rc, fs) = shell env cmd (files s1)
      in (rc, s1\<lparr>files := fs, trace := trace s1 @ [EvSystem cmd]\<rparr>))"

definition publish_results :: "int \<Rightarrow> gstate \<Rightarrow> gstate" where
  "publish_results sys_rc s =
     (let s1 = (if \<not> file_exists OUT_NEW s
                then (let (ok, t) = fopen_w OUT_NEW s
                      in if ok
                         then fputs (''ERROR: OUT.NEW missing (system rc='' @ dec_int sys_rc @ '')'' @ CRLF)
                                OUT_NEW t
                         else t)
                else s);
          s2 = c_remove OUT_TXT s1;
          (moved, s3) = c_rename OUT_NEW OUT_TXT s2;
          s4 = (if \<not> moved
                then log_line (''ERROR: failed to rename OUT.NEW -> OUT.TXT (errno=''
                               @ dec_int (errno s3) @ '')'') s3
                else s3)
      in if file_exists RC_NEW s4
         then (let s5 = c_remove RC_TXT s4;
                   (moved2, s6) = c_rename RC_NEW RC_TXT s5
               in if \<not> moved2
                  then log_line (''ERROR: failed to rename RC.NEW -> RC.TXT (errno=''
                                 @ dec_int (errno s6) @ '')'') s6
                  else s6)
         else (let (ok, s5) = fopen_w RC_TXT s4
               in if ok then fputs (''1'' @ CRLF) RC_TXT s5 else s5))"

definition write_error_output :: "string \<Rightarrow> gstate \<Rightarrow> gstate" where
  "write_error_output what s =
     (let s1 = c_remove OUT_NEW s;
          (ok, s2) = fopen_w OUT_NEW s1
      in if \<not> ok then s2
         else (let s3 = fputs (''ERROR: '' @ what @ CRLF) OUT_NEW s2;
                   s4 = fputs (''errno='' @ dec_int (errno s3) @ CRLF) OUT_NEW s3;
                   s5 = c_remove OUT_TXT s4;
                   s6 = snd (c_rename OUT_NEW OUT_TXT s5);
                   s7 = c_remove RC_NEW s6;
                   (ok2, s8) = fopen_w RC_NEW s7;
                   s9 = (if ok2 then fputs (''1'' @ CRLF) RC_NEW s8 else s8);
                   s10 = c_remove RC_TXT s9
               in snd (c_rename RC_NEW RC_TXT s10)))"

definition is_exit_cmd :: "string \<Rightarrow> bool" where
  "is_exit_cmd s = (stricmp s ''EXIT'' = 0 \<or> stricmp s ''QUIT'' = 0)"

section \<open>Guest: the server loop\<close>

text \<open>
  \<open>process_cmd\<close> is the block of \<open>main\<close> that runs when \<open>CMD.RUN\<close> exists. The first
  component of its result says whether the loop is left (\<open>break\<close>).
\<close>

definition process_cmd :: "genv \<Rightarrow> int \<Rightarrow> gstate \<Rightarrow> bool \<times> gstate" where
  "process_cmd env idle_ms s =
     (let s1 = set_status ''RUNNING'' s
      in case read_first_nonempty_line CMD_RUN s1 of
           None \<Rightarrow>
             (let s2 = log_line ''ERROR: CMD.RUN empty'' s1;
                  s3 = write_error_output ''CMD file is empty'' s2;
                  s4 = c_remove CMD_RUN s3;
                  s5 = set_status ''READY'' s4
              in (False, ms_sleep (nat idle_ms) s5))
         | Some first \<Rightarrow>
             if is_exit_cmd first
             then (let s2 = log_line ''Received EXIT/QUIT'' s1;
                       s3 = snd (write_text_atomic OUT_NEW OUT_TXT ''MBXSRV BYE'' s2);
                       s4 = snd (write_text_atomic RC_NEW RC_TXT ''0'' s3);
                       s5 = c_remove CMD_RUN s4
                   in (True, set_status ''BYE'' s5))
             else (let (built, payload_bytes, s2) = build_job_bat_from_cmd CMD_RUN s1
                   in if \<not> built
                      then (let s3 = log_line (''ERROR: build_job_bat failed (payload=''
                                               @ dec_int payload_bytes @ '', errno=''
                                               @ dec_int (errno s2) @ '')'') s2;
                                s4 = write_error_output
                                       ''Failed to build MBXJOB.BAT (payload too large or file error)'' s3;
                                s5 = c_remove CMD_RUN s4;
                                s6 = set_status ''READY'' s5
                            in (False, ms_sleep (nat idle_ms) s6))
                      else (let s3 = log_line (''Executing job (payload='' @ dec_int payload_bytes
                                               @ '' bytes)'') s2;
                                s4 = c_remove RC_TXT (c_remove OUT_TXT s3);
                                (sys_rc, s5) = exec_job_to_out env s4;
                                s6 = log_line (''system() rc='' @ dec_int sys_rc) s5;
                                s7 = publish_results sys_rc s6;
                                s8 = c_remove CMD_RUN s7;
                                s9 = set_status ''READY'' s8
                            in (False, ms_sleep (nat idle_ms) s9))))"

text \<open>
  One pass of the \<open>for (;;)\<close> loop. \<open>key\<close> is what the keyboard holds: \<open>None\<close> when
  \<open>kbhit\<close> is false, otherwise the code \<open>getch\<close> returns; 27 is ESC.
\<close>

definition loop_body :: "genv \<Rightarrow> int \<Rightarrow> int option \<Rightarrow> gstate \<Rightarrow> bool \<times> gstate" where
  "loop_body env idle_ms key s =
     (if key = Some 27
      then (True, set_status ''BYE'' (log_line ''ESC pressed; exiting'' s))
      else (let s1 = (if \<not> file_exists CMD_RUN s \<and> file_exists CMD_TXT s
                      then (let (claimed, t) = claim_cmd s
                            in if claimed then log_line ''Claimed CMD.TXT -> CMD.RUN'' t else t)
                      else s)
            in if file_exists CMD_RUN s1 then process_cmd env idle_ms s1
               else (False, ms_sleep (nat idle_ms) s1)))"

text \<open>
  The loop over a finite run: each pass is given the key it finds and what the other side
  did to the directory since the pass before. The result says whether the loop was left.
\<close>

fun server_loop ::
  "genv \<Rightarrow> int \<Rightarrow> (int option \<times> ((string \<rightharpoonup> string) \<Rightarrow> (string \<rightharpoonup> string))) list
   \<Rightarrow> gstate \<Rightarrow> bool \<times> gstate" where
  "server_loop env idle_ms [] s = (False, s)"
| "server_loop env idle_ms ((key, other) # passes) s =
     (case loop_body env idle_ms key (s\<lparr>files := other (files s)\<rparr>) of
        (stop, s') \<Rightarrow> if stop then (True, s') else server_loop env idle_ms passes s')"

definition startup :: "gstate \<Rightarrow> gstate" where
  \<comment> \<open>\<open>main\<close> from its first log line to the loop\<close>
  "startup s =
     (let s1 = log_line ''MBXSRV starting'' s;
          s2 = set_status ''READY'' s1
      in if file_exists CMD_RUN s2 then log_line ''Found stale CMD.RUN; will process it'' s2
         else s2)"

definition mbxsrv_main ::
  "genv \<Rightarrow> (string \<Rightarrow> int) \<Rightarrow> string list
   \<Rightarrow> (int option \<times> ((string \<rightharpoonup> string) \<Rightarrow> (string \<rightharpoonup> string))) list
   \<Rightarrow> gstate \<Rightarrow> bool \<times> gstate" where
  \<comment> \<open>\<open>True\<close> when \<open>main\<close> has returned (with 0), \<open>False\<close> when it is still looping\<close>
  "mbxsrv_main env atoi args passes s =
     (case server_loop env (main_idle_ms atoi args) passes (startup s) of
        (stop, s') \<Rightarrow> if stop then (True, log_line ''MBXSRV stopped'' s') else (False, s'))"

section \<open>Host: submitting a command and waiting for the reply\<close>

text \<open>
  The host shares the directory with a guest that runs at the same time, so what the host
  finds there depends on when it looks. The \<open>world\<close> gives, for every time in
  milliseconds on the host's steady clock, the files the host would find (with their
  modification times), and says whether the host's own write, rename and copy of the
  command files succeed. The host's clock advances only while it sleeps: file operations
  are taken as instantaneous and \<open>sleep_for\<close> as exact.
\<close>

record reply =
  out :: string
  rc :: "int option"

datatype herror =
    Failed_to_open string
  | Failed_to_write string
  | Failed_to_move string string
  | Timeout_waiting

datatype hevent =
    HProbe string
  | HRead string
  | HRemove string
  | HWrite string string
  | HRename string string
  | HCopy string string
  | HSleep int

record world =
  view :: "int \<Rightarrow> string \<Rightarrow> (int \<times> string) option"
  write_ok :: "int \<Rightarrow> string \<Rightarrow> bool"
  rename_ok :: "int \<Rightarrow> string \<Rightarrow> string \<Rightarrow> bool"
  copy_ok :: "int \<Rightarrow> string \<Rightarrow> string \<Rightarrow> bool"
  dir_exists :: "string \<Rightarrow> bool"

record hstate =
  now :: int
  htrace :: "hevent list"

definition CMD_NEW :: string where "CMD_NEW = ''CMD.NEW''"

definition hnote :: "hevent \<Rightarrow> hstate \<Rightarrow> hstate" where
  "hnote e st = st\<lparr>htrace := htrace st @ [e]\<rparr>"

definition readFileText :: "world \<Rightarrow> string \<Rightarrow> hstate \<Rightarrow> (herror + string) \<times> hstate" where
  "readFileText w p st =
     (case view w (now st) p of
        None \<Rightarrow> (Inl (Failed_to_open p), hnote (HRead p) st)
      | Some (t, c) \<Rightarrow> (Inr c, hnote (HRead p) st))"

definition writeFileText :: "world \<Rightarrow> string \<Rightarrow> string \<Rightarrow> hstate \<Rightarrow> herror option \<times> hstate" where
  \<comment> \<open>\<open>Some\<close> is the exception thrown\<close>
  "writeFileText w p s st =
     (if write_ok w (now st) p then (None, hnote (HWrite p s) st)
      else (Some (Failed_to_write p), hnote (HWrite p s) st))"

definition mtimeIfExists :: "world \<Rightarrow> string \<Rightarrow> hstate \<Rightarrow> int option \<times> hstate" where
  "mtimeIfExists w p st = (map_option fst (view w (now st) p), hnote (HProbe p) st)"

definition safeRemove :: "string \<Rightarrow> hstate \<Rightarrow> hstate" where
  "safeRemove p st = hnote (HRemove p) st"

definition safeRename :: "world \<Rightarrow> string \<Rightarrow> string \<Rightarrow> hstate \<Rightarrow> herror option \<times> hstate" where
  "safeRename w from to st =
     (let st1 = hnote (HRename from to) (hnote (HRemove to) st)
      in if rename_ok w (now st) from to then (None, st1)
         else (let st2 = hnote (HCopy from to) st1
               in if copy_ok w (now st) from to then (None, hnote (HRemove from) st2)
                  else (Some (Failed_to_move from to), st2)))"

definition sleep_for :: "int \<Rightarrow> hstate \<Rightarrow> hstate" where
  \<comment> \<open>a duration that is not positive returns at once\<close>
  "sleep_for d st = (hnote (HSleep d) st)\<lparr>now := now st + max 0 d\<rparr>"

definition updated :: "int option \<Rightarrow> int option \<Rightarrow> bool" where
  \<comment> \<open>the test the source writes three times: present now, and absent before or
      different from before\<close>
  "updated t_now t_before =
     (case t_now of
        None \<Rightarrow> False
      | Some t \<Rightarrow> (case t_before of None \<Rightarrow> True | Some b \<Rightarrow> t \<noteq> b))"

text \<open>The grace loop, entered with the reply that already holds the output.\<close>

function grace_loop ::
  "world \<Rightarrow> int option \<Rightarrow> int \<Rightarrow> reply \<Rightarrow> hstate \<Rightarrow> (herror + reply) \<times> hstate" where
  "grace_loop w rc_before grace_end r st =
     (if now st < grace_end
      then (case mtimeIfExists w RC_TXT st of
              (rc2, st1) \<Rightarrow>
                if updated rc2 rc_before
                then (case readFileText w RC_TXT st1 of
                        (Inl e, st2) \<Rightarrow> (Inl e, st2)
                      | (Inr rc_text, st2) \<Rightarrow> (Inr (r\<lparr>rc := parseReturnCode rc_text\<rparr>), st2))
                else grace_loop w rc_before grace_end r (sleep_for 20 st1))
      else (Inr r, st))"
  by pat_completeness auto
termination
  by (relation "measure (\<lambda>(w, rc_before, grace_end, r, st). nat (grace_end - now st))")
     (auto simp: mtimeIfExists_def sleep_for_def hnote_def)

declare grace_loop.simps [simp del]

definition on_out_updated ::
  "world \<Rightarrow> int option \<Rightarrow> bool \<Rightarrow> hstate \<Rightarrow> (herror + reply) \<times> hstate" where
  \<comment> \<open>the block under \<open>if (out_updated)\<close>\<close>
  "on_out_updated w rc_before rc_updated st =
     (case readFileText w OUT_TXT st of
        (Inl e, st1) \<Rightarrow> (Inl e, st1)
      | (Inr text, st1) \<Rightarrow>
          (let r = \<lparr>out = text, rc = None\<rparr>
           in if rc_updated
              then (case readFileText w RC_TXT st1 of
                      (Inl e, st2) \<Rightarrow> (Inl e, st2)
                    | (Inr rc_text, st2) \<Rightarrow> (Inr (r\<lparr>rc := parseReturnCode rc_text\<rparr>), st2))
              else grace_loop w rc_before (now st1 + 200) r st1))"

text \<open>
  The \<open>while (true)\<close> loop. It need not end (with a poll interval that is not positive
  the model's clock stands still), so it is a partial function: \<open>None\<close> means that it
  never returns.
\<close>

partial_function (option) wait_loop ::
  "world \<Rightarrow> int option \<Rightarrow> int option \<Rightarrow> int \<Rightarrow> int \<Rightarrow> int \<Rightarrow> hstate
   \<Rightarrow> ((herror + reply) \<times> hstate) option" where
  "wait_loop w out_before rc_before start timeout poll st =
     (case mtimeIfExists w OUT_TXT st of
        (out_now, st1) \<Rightarrow>
          (case mtimeIfExists w RC_TXT st1 of
             (rc_now, st2) \<Rightarrow>
               if updated out_now out_before
               then Some (on_out_updated w rc_before (updated rc_now rc_before) st2)
               else if now st2 - start > timeout then Some (Inl Timeout_waiting, st2)
               else wait_loop w out_before rc_before start timeout poll (sleep_for poll st2)))"

declare wait_loop.simps [code]

definition sendCommandAndWait ::
  "world \<Rightarrow> string \<Rightarrow> int \<Rightarrow> int \<Rightarrow> hstate \<Rightarrow> ((herror + reply) \<times> hstate) option" where
  "sendCommandAndWait w command timeout poll st =
     (let (out_before, st1) = mtimeIfExists w OUT_TXT st;
          (rc_before, st2) = mtimeIfExists w RC_TXT st1;
          st3 = safeRemove CMD_NEW st2;
          (err, st4) = writeFileText w CMD_NEW (command @ CRLF) st3
      in case err of
           Some e \<Rightarrow> Some (Inl e, st4)
         | None \<Rightarrow>
             (let (err2, st5) = safeRename w CMD_NEW CMD_TXT st4
              in case err2 of
                   Some e \<Rightarrow> Some (Inl e, st5)
                 | None \<Rightarrow> wait_loop w out_before rc_before (now st5) timeout poll st5))"

section \<open>Host: the command line and the exit status\<close>

text \<open>
  The argument loop of \<open>main\<close> from \<open>argv[2]\<close> on. \<open>Inl\<close> is an exit status returned at
  once (an exception from \<open>std::stoi\<close> is caught by \<open>main\<close> and gives 1); \<open>Inr\<close> is the
  one-shot command, if any, and the timeout.
\<close>

fun parse_args :: "string list \<Rightarrow> string option \<Rightarrow> int \<Rightarrow> int + (string option \<times> int)" where
  "parse_args [] oneShotCmd timeout = Inr (oneShotCmd, timeout)"
| "parse_args [a] oneShotCmd timeout =
     (if a = ''--help'' \<or> a = ''-h'' then Inl 0 else Inl 2)"
| "parse_args (a # b # rest) oneShotCmd timeout =
     (if a = ''--cmd'' then parse_args rest (Some b) timeout
      else if a = ''--timeout''
      then (case stoi b of None \<Rightarrow> Inl 1 | Some v \<Rightarrow> parse_args rest oneShotCmd v)
      else if a = ''--help'' \<or> a = ''-h'' then Inl 0
      else Inl 2)"

text \<open>
  The interactive loop over the lines that standard input still holds; the end of the
  list is the end of the input. Every submit uses the default poll interval of 50 ms.
\<close>

fun repl :: "world \<Rightarrow> int \<Rightarrow> string list \<Rightarrow> hstate \<Rightarrow> (int \<times> hstate) option" where
  "repl w timeout [] st = Some (0, st)"
| "repl w timeout (line # rest) st =
     (if line = ''exit'' then Some (0, st)
      else if line = ''quit-guest''
      then (case sendCommandAndWait w ''EXIT'' timeout 50 st of
              None \<Rightarrow> None
            | Some (Inl e, st') \<Rightarrow> Some (1, st')
            | Some (Inr r, st') \<Rightarrow> Some (0, st'))
      else if line = [] then repl w timeout rest st
      else (case sendCommandAndWait w line timeout 50 st of
              None \<Rightarrow> None
            | Some (Inl e, st') \<Rightarrow> Some (1, st')
            | Some (Inr r, st') \<Rightarrow> repl w timeout rest st'))"

definition host_main :: "world \<Rightarrow> string list \<Rightarrow> string list \<Rightarrow> hstate \<Rightarrow> (int \<times> hstate) option" where
  \<comment> \<open>\<open>argv\<close> with the program name, the lines of standard input; the result is the exit
      status. What \<open>main\<close> prints is left out.\<close>
  "host_main w argv input st =
     (case argv of
        [] \<Rightarrow> Some (2, st)
      | [prog] \<Rightarrow> Some (2, st)
      | prog # dir # rest \<Rightarrow>
          if \<not> dir_exists w dir then Some (2, st)
          else (case parse_args rest None 5000 of
                  Inl status \<Rightarrow> Some (status, st)
                | Inr (oneShotCmd, timeout) \<Rightarrow>
                    (case oneShotCmd of
                       Some cmd \<Rightarrow>
                         (case sendCommandAndWait w cmd timeout 50 st of
                            None \<Rightarrow> None
                          | Some (Inl e, st') \<Rightarrow> Some (1, st')
                          | Some (Inr r, st') \<Rightarrow>
                              Some ((case rc r of None \<Rightarrow> 0 | Some v \<Rightarrow> v), st'))
                     | None \<Rightarrow> repl w timeout input st)))"

section \<open>Observing the trace\<close>

text \<open>The calls of \<open>system\<close> that a trace holds, that is, the runs of the interpreter.\<close>

fun is_system :: "event \<Rightarrow> bool" where
  "is_system (EvSystem cmd) = True"
| "is_system e = False"

definition interpreter_runs :: "gstate \<Rightarrow> event list" where
  "interpreter_runs s = filter is_system (trace s)"

section \<open>Sample inputs\<close>

text \<open>
  Concrete inputs on which the results below are tried: an interpreter that could not be
  started (it leaves the directory as it is and reports \<open>-1\<close>), a guest state with a given
  directory in which every file can be written, and an empty log and trace.
\<close>

definition demo_shell_quiet :: "string \<Rightarrow> (string \<rightharpoonup> string) \<Rightarrow> int \<times> (string \<rightharpoonup> string)" where
  "demo_shell_quiet cmd fs = (- 1, fs)"

definition demo_env :: genv where
  "demo_env = \<lparr>comspec = None, mbx_stderr = None, shell = demo_shell_quiet\<rparr>"

definition demo_state :: "(string \<rightharpoonup> string) \<Rightarrow> gstate" where
  "demo_state fs = \<lparr>files = fs, nowrite = {}, logged = [], trace = [], errno = 0\<rparr>"

text \<open>A command whose first non-blank line is \<open>quit\<close>, after two blank lines.\<close>

definition demo_quit_cmd :: string where
  "demo_quit_cmd = [LF] @ ''  '' @ [LF] @ ''quit'' @ CRLF @ ''dir'' @ CRLF"

text \<open>
  Two commands of more than 32 KiB: one whose first line is \<open>EXIT\<close>, one whose first
  line is \<open>dir\<close>.
\<close>

definition demo_big_exit :: string where
  "demo_big_exit = ''EXIT'' @ [LF] @ replicate 32768 (CHR ''x'')"

definition demo_big_dir :: string where
  "demo_big_dir = ''dir'' @ [LF] @ replicate 32768 (CHR ''x'')"

text \<open>A short command: the one line \<open>dir\<close>.\<close>

definition demo_dir_cmd :: string where
  "demo_dir_cmd = ''dir'' @ [LF]"

section \<open>Letter case and the exit directive\<close>

lemma isspace_code: "isspace c \<Longrightarrow> (of_char c :: nat) \<le> 32"
  by (auto simp: isspace_def)

lemma isspace_not_NUL: "isspace c \<Longrightarrow> c \<noteq> NUL"
  by (auto simp: isspace_def NUL_def)

lemma toupper_letter:
  assumes "toupper c = u" and "65 \<le> (of_char u :: nat)" and "(of_char u :: nat) \<le> 90"
  shows "tolower c = tolower u" and "\<not> isspace c" and "c \<noteq> NUL" and "c \<noteq> LF" and "c \<noteq> CR"
proof -
  define n where "n = (of_char c :: nat)"
  have n256: "n < 256" by (simp add: n_def)
  have big: "65 \<le> n"
  proof (cases "97 \<le> n \<and> n \<le> 122")
    case True then show ?thesis by simp
  next
    case False
    then have "u = c" using assms(1) by (auto simp: toupper_def n_def Let_def)
    then show ?thesis using assms(2) by (simp add: n_def)
  qed
  show "tolower c = tolower u"
  proof (cases "97 \<le> n \<and> n \<le> 122")
    case True
    then have u: "u = char_of (n - 32)" using assms(1) by (auto simp: toupper_def n_def Let_def)
    have "n - 32 < 256" using True by arith
    then have ou: "(of_char u :: nat) = n - 32" by (simp add: u)
    have "65 \<le> n - 32" "n - 32 \<le> 90" "n - 32 + 32 = n" using True by arith+
    then have "tolower u = char_of n" by (simp add: tolower_def ou Let_def)
    also have "\<dots> = c" by (simp add: n_def)
    finally have "tolower u = c" .
    moreover have "tolower c = c" using True by (simp add: tolower_def n_def [symmetric] Let_def)
    ultimately show ?thesis by simp
  next
    case False
    then have "u = c" using assms(1) by (auto simp: toupper_def n_def Let_def)
    then show ?thesis by simp
  qed
  show "\<not> isspace c" using big isspace_code [of c] by (auto simp: n_def)
  show "c \<noteq> NUL" using big by (auto simp: n_def NUL_def)
  show "c \<noteq> LF" using big by (auto simp: n_def LF_def)
  show "c \<noteq> CR" using big by (auto simp: n_def CR_def)
qed

lemma stricmp_same: "map tolower a = map tolower b \<Longrightarrow> stricmp a b = 0"
  by (induction a b rule: stricmp.induct) auto

lemma exit_word:
  assumes "map toupper w = ''EXIT'' \<or> map toupper w = ''QUIT''"
  shows "is_exit_cmd w" and "\<forall>c\<in>set w. \<not> isspace c \<and> c \<noteq> NUL \<and> c \<noteq> LF \<and> c \<noteq> CR"
    and "length w = 4"
proof -
  from assms show len: "length w = 4" by (auto dest: arg_cong [where f = length])
  then have "\<exists>a b c d. w = [a, b, c, d]"
    by (simp add: numeral_eq_Suc length_Suc_conv) blast
  then obtain a b c d where w: "w = [a, b, c, d]" by blast
  from assms consider (e) "toupper a = CHR ''E''" "toupper b = CHR ''X''" "toupper c = CHR ''I''" "toupper d = CHR ''T''"
    | (q) "toupper a = CHR ''Q''" "toupper b = CHR ''U''" "toupper c = CHR ''I''" "toupper d = CHR ''T''"
    by (auto simp: w)
  then have "(map tolower w = map tolower ''EXIT'' \<or> map tolower w = map tolower ''QUIT'')
      \<and> (\<forall>c\<in>set w. \<not> isspace c \<and> c \<noteq> NUL \<and> c \<noteq> LF \<and> c \<noteq> CR)"
  proof cases
    case e
    show ?thesis unfolding w
      using toupper_letter [OF e(1)] toupper_letter [OF e(2)] toupper_letter [OF e(3)] toupper_letter [OF e(4)]
      by simp
  next
    case q
    show ?thesis unfolding w
      using toupper_letter [OF q(1)] toupper_letter [OF q(2)] toupper_letter [OF q(3)] toupper_letter [OF q(4)]
      by simp
  qed
  then show "is_exit_cmd w" and "\<forall>c\<in>set w. \<not> isspace c \<and> c \<noteq> NUL \<and> c \<noteq> LF \<and> c \<noteq> CR"
    unfolding is_exit_cmd_def using stricmp_same by blast+
qed

section \<open>Reading the first non-empty line\<close>

lemma fgets_take_split: "fgets_take k s = (a, r) \<Longrightarrow> s = a @ r"
  by (induction k s arbitrary: a r rule: fgets_take.induct) (auto split: if_splits prod.splits)

lemma fgets_take_append:
  "LF \<in> set pre \<Longrightarrow> fgets_take k (pre @ rest) = (fst (fgets_take k pre), snd (fgets_take k pre) @ rest)"
  by (induction k pre rule: fgets_take.induct) (auto split: prod.splits)

lemma fgets_take_line:
  "LF \<notin> set w \<Longrightarrow> length w < k \<Longrightarrow> fgets_take k (w @ LF # r) = (w @ [LF], r)"
  by (induction k w rule: fgets_take.induct) (auto split: prod.splits)

lemma fgets_take_all:
  "LF \<notin> set w \<Longrightarrow> length w \<le> k \<Longrightarrow> fgets_take k w = (w, [])"
  by (induction k w rule: fgets_take.induct) (auto split: prod.splits)

lemma cstr_no_NUL: "NUL \<notin> set b \<Longrightarrow> cstr b = b"
  by (auto simp: cstr_def takeWhile_eq_all_conv)

lemma trim_blank: "\<forall>c\<in>set b. isspace c \<Longrightarrow> trim b = []"
  by (auto simp: trim_def dest: set_dropWhileD)

lemma strip_eol_subset: "set (strip_eol b) \<subseteq> set b"
  by (auto simp: strip_eol_def dest: set_dropWhileD)

lemma blank_chunk: "\<forall>c\<in>set a. isspace c \<Longrightarrow> trim (strip_eol (cstr a)) = []"
proof -
  assume h: "\<forall>c\<in>set a. isspace c"
  then have "NUL \<notin> set a" using isspace_not_NUL by blast
  then have "cstr a = a" by (rule cstr_no_NUL)
  moreover have "\<forall>c\<in>set (strip_eol a). isspace c" using h strip_eol_subset by blast
  ultimately show ?thesis by (simp add: trim_blank)
qed

lemma first_nonempty_skip_blank:
  "\<forall>c\<in>set pre. isspace c \<Longrightarrow> pre = [] \<or> last pre = LF \<Longrightarrow>
   first_nonempty (pre @ rest) = first_nonempty rest"
proof (induction "length pre" arbitrary: pre rule: less_induct)
  case less
  show ?case
  proof (cases "pre = []")
    case True
    then show ?thesis by simp
  next
    case False
    with less.prems(2) have lf: "LF \<in> set pre" using last_in_set [OF False] by auto
    obtain a r where ar: "fgets_take 511 pre = (a, r)" by (cases "fgets_take 511 pre")
    have split: "pre = a @ r" using ar by (rule fgets_take_split)
    have ane: "a \<noteq> []" using fgets_take_progress [OF _ False ar] by simp
    have g: "fgets MAX_LINE (pre @ rest) = Some (a, r @ rest)"
      using False by (simp add: fgets_def MAX_LINE_def fgets_take_append [OF lf] ar)
    have blank: "trim (strip_eol (cstr a)) = []"
      using less.prems(1) split by (intro blank_chunk) auto
    have r1: "\<forall>c\<in>set r. isspace c" using less.prems(1) split by auto
    have r2: "r = [] \<or> last r = LF" using less.prems(2) False split by (cases "r = []") auto
    have shorter: "length r < length pre" using split ane by (cases a) auto
    have "first_nonempty (pre @ rest) = first_nonempty (r @ rest)"
      by (subst first_nonempty.simps) (simp add: g blank)
    also have "\<dots> = first_nonempty rest" using less.hyps [OF shorter r1 r2] .
    finally show ?thesis .
  qed
qed

lemma strip_eol_line:
  "w \<noteq> [] \<Longrightarrow> last w \<noteq> CR \<Longrightarrow> last w \<noteq> LF \<Longrightarrow>
   strip_eol w = w \<and> strip_eol (w @ [LF]) = w \<and> strip_eol (w @ [CR, LF]) = w"
  by (cases w rule: rev_cases) (auto simp: strip_eol_def)

lemma trim_word: "w \<noteq> [] \<Longrightarrow> \<not> isspace (hd w) \<Longrightarrow> \<not> isspace (last w) \<Longrightarrow> trim w = w"
proof -
  assume ne: "w \<noteq> []" and h: "\<not> isspace (hd w)" and l: "\<not> isspace (last w)"
  from ne h have "dropWhile isspace w = w" by (cases w) auto
  moreover from ne l have "dropWhile isspace (rev w) = rev w" by (cases w rule: rev_cases) auto
  ultimately show ?thesis by (simp add: trim_def)
qed

lemma first_nonempty_word:
  assumes w: "\<forall>c\<in>set w. \<not> isspace c \<and> c \<noteq> NUL \<and> c \<noteq> LF \<and> c \<noteq> CR"
    and ne: "w \<noteq> []" and len: "length w < 500"
    and post: "post = [] \<or> hd post = LF \<or> take 2 post = CRLF"
  shows "first_nonempty (w @ post) = Some w"
proof -
  have nolf: "LF \<notin> set w" and nonul: "NUL \<notin> set w" using w by auto
  have hl: "\<not> isspace (hd w)" "\<not> isspace (last w)" "last w \<noteq> CR" "last w \<noteq> LF"
    using w ne by (auto simp: hd_in_set last_in_set)
  have nn: "NUL \<noteq> LF" "NUL \<noteq> CR" by (simp_all add: NUL_def LF_def CR_def)
  from post consider (eof) "post = []" | (lf) r where "post = LF # r" | (crlf) r where "post = CR # LF # r"
    by (cases post; cases "tl post") (auto simp: CRLF_def)
  then obtain b r where g: "fgets MAX_LINE (w @ post) = Some (b, r)"
    and b: "b = w \<or> b = w @ [LF] \<or> b = w @ [CR, LF]"
  proof cases
    case eof
    have "fgets MAX_LINE (w @ post) = Some (w, [])"
      using ne len nolf by (simp add: eof fgets_def MAX_LINE_def fgets_take_all)
    then show ?thesis using that by blast
  next
    case lf
    have "fgets MAX_LINE (w @ post) = Some (w @ [LF], r)"
      using ne len nolf by (simp add: lf fgets_def MAX_LINE_def fgets_take_line)
    then show ?thesis using that by blast
  next
    case crlf
    have "LF \<notin> set (w @ [CR])" using nolf by (simp add: LF_def CR_def)
    moreover have "length (w @ [CR]) < 511" using len by simp
    ultimately have "fgets_take 511 ((w @ [CR]) @ LF # r) = ((w @ [CR]) @ [LF], r)"
      by (rule fgets_take_line)
    then have "fgets MAX_LINE (w @ post) = Some (w @ [CR, LF], r)"
      using ne by (simp add: crlf fgets_def MAX_LINE_def)
    then show ?thesis using that by blast
  qed
  have "cstr b = b" using b nonul nn by (intro cstr_no_NUL) auto
  moreover have "strip_eol b = w" using b strip_eol_line [OF ne hl(3,4)] by auto
  moreover have "trim w = w" using ne hl(1,2) by (rule trim_word)
  ultimately have "trim (strip_eol (cstr b)) = w" by simp
  then show ?thesis using ne by (subst first_nonempty.simps) (simp add: g)
qed

lemma first_nonempty_exit:
  assumes "\<forall>c\<in>set pre. isspace c" and "pre = [] \<or> last pre = LF"
    and "map toupper w = ''EXIT'' \<or> map toupper w = ''QUIT''"
    and "post = [] \<or> hd post = LF \<or> take 2 post = CRLF"
  shows "first_nonempty (pre @ w @ post) = Some w \<and> is_exit_cmd w"
proof -
  note ew = exit_word [OF assms(3)]
  have "w \<noteq> []" "length w < 500" using ew(3) by auto
  then have "first_nonempty (w @ post) = Some w"
    using first_nonempty_word [OF ew(2) _ _ assms(4)] by blast
  then show ?thesis using first_nonempty_skip_blank [OF assms(1,2)] ew(1) by simp
qed

section \<open>The return-code parser\<close>

lemma isdigit_not_space: "isdigit c \<Longrightarrow> \<not> isspace c"
  by (auto simp: isdigit_def isspace_def)

lemma isdigit_not_sign: "isdigit c \<Longrightarrow> c \<noteq> CHR ''-'' \<and> c \<noteq> CHR ''+''"
  by (auto simp: isdigit_def)

lemma scan_int_decompose:
  "scan_int s = Some v \<longleftrightarrow>
     (\<exists>ws sg ds rest. s = ws @ sg @ ds @ rest \<and> (\<forall>c\<in>set ws. isspace c)
        \<and> (sg = [] \<or> sg = ''+'' \<or> sg = ''-'') \<and> ds \<noteq> [] \<and> (\<forall>c\<in>set ds. isdigit c)
        \<and> (rest = [] \<or> \<not> isdigit (hd rest))
        \<and> v = (if sg = ''-'' then - dec_val ds else dec_val ds))"
  (is "?L \<longleftrightarrow> ?R")
proof
  assume L: ?L
  define ws where "ws = takeWhile isspace s"
  define t where "t = dropWhile isspace s"
  define sg where "sg = (if t \<noteq> [] \<and> (hd t = CHR ''-'' \<or> hd t = CHR ''+'') then [hd t] else [])"
  define u where "u = (if t \<noteq> [] \<and> (hd t = CHR ''-'' \<or> hd t = CHR ''+'') then tl t else t)"
  define ds where "ds = takeWhile isdigit u"
  define rest where "rest = dropWhile isdigit u"
  have s: "s = ws @ sg @ ds @ rest"
    by (auto simp: ws_def t_def sg_def u_def ds_def rest_def)
  have neg: "(t \<noteq> [] \<and> hd t = CHR ''-'') = (sg = ''-'')"
    by (auto simp: sg_def)
  from L have ds: "ds \<noteq> []" and v: "v = (if sg = ''-'' then - dec_val ds else dec_val ds)"
    unfolding scan_int_def Let_def t_def [symmetric] u_def [symmetric] ds_def [symmetric] neg
    by (auto split: if_splits)
  have "\<forall>c\<in>set ws. isspace c" by (auto simp: ws_def dest: set_takeWhileD)
  moreover have "sg = [] \<or> sg = ''+'' \<or> sg = ''-''" by (auto simp: sg_def)
  moreover have "\<forall>c\<in>set ds. isdigit c" by (auto simp: ds_def dest: set_takeWhileD)
  moreover have "rest = [] \<or> \<not> isdigit (hd rest)"
    unfolding rest_def by (metis hd_dropWhile)
  ultimately show ?R using s ds v by blast
next
  assume ?R
  then obtain ws sg ds rest where s: "s = ws @ sg @ ds @ rest"
    and ws: "\<forall>c\<in>set ws. isspace c" and sg: "sg = [] \<or> sg = ''+'' \<or> sg = ''-''"
    and ds: "ds \<noteq> []" and dig: "\<forall>c\<in>set ds. isdigit c"
    and rest: "rest = [] \<or> \<not> isdigit (hd rest)"
    and v: "v = (if sg = ''-'' then - dec_val ds else dec_val ds)" by blast
  from ds obtain d ds' where dsc: "ds = d # ds'" by (cases ds) auto
  with dig have d: "isdigit d" by simp
  have tw: "takeWhile isdigit (ds @ rest) = ds"
  proof -
    have "takeWhile isdigit rest = []" using rest by (cases rest) auto
    then show ?thesis using dig by (simp add: takeWhile_append2)
  qed
  have nsp: "sg @ ds @ rest \<noteq> [] \<and> \<not> isspace (hd (sg @ ds @ rest))"
    using sg d dsc isdigit_not_space by (auto simp: isspace_def)
  then have t: "dropWhile isspace s = sg @ ds @ rest"
    unfolding s using ws by (cases "sg @ ds @ rest") (auto simp: dropWhile_append2 simp del: append_assoc)
  show ?L
    unfolding scan_int_def Let_def t
    using sg tw ds v d dsc isdigit_not_sign [OF d] by auto
qed

lemma scan_int_blank_out:
  "scan_int (map (\<lambda>c. if c = CR \<or> c = LF \<or> c = TAB then CHR '' '' else c) s) = scan_int s"
proof -
  define f where "f = (\<lambda>c. if c = CR \<or> c = LF \<or> c = TAB then CHR '' '' else c)"
  have sp: "\<And>c. isspace (f c) = isspace c" by (auto simp: f_def isspace_def CR_def LF_def TAB_def)
  have dg: "\<And>c. isdigit (f c) = isdigit c" by (auto simp: f_def isdigit_def CR_def LF_def TAB_def)
  have mi: "\<And>c. (f c = CHR ''-'') = (c = CHR ''-'')" by (auto simp: f_def CR_def LF_def TAB_def)
  have pl: "\<And>c. (f c = CHR ''+'') = (c = CHR ''+'')" by (auto simp: f_def CR_def LF_def TAB_def)
  have fixd: "\<And>c. isdigit c \<Longrightarrow> f c = c" by (auto simp: f_def isdigit_def CR_def LF_def TAB_def)
  have dw: "dropWhile isspace (map f s) = map f (dropWhile isspace s)"
    by (simp add: dropWhile_map comp_def sp)
  have tw: "takeWhile isdigit (map f u) = takeWhile isdigit u" for u
  proof -
    have "takeWhile isdigit (map f u) = map f (takeWhile isdigit u)"
      by (simp add: takeWhile_map comp_def dg)
    also have "\<dots> = takeWhile isdigit u"
    proof (rule map_idI)
      fix c assume "c \<in> set (takeWhile isdigit u)"
      then have "isdigit c" by (auto dest: set_takeWhileD)
      then show "f c = c" by (rule fixd)
    qed
    finally show ?thesis .
  qed
  have "scan_int (map f s) = scan_int s"
  proof (cases "dropWhile isspace s")
    case Nil
    show ?thesis unfolding scan_int_def Let_def dw Nil by simp
  next
    case (Cons a list)
    have u: "takeWhile isdigit (f a # map f list) = takeWhile isdigit (a # list)"
      using tw [of "a # list"] by simp
    show ?thesis unfolding scan_int_def Let_def dw Cons
      by (simp add: mi pl tw u del: takeWhile.simps)
  qed
  then show ?thesis by (simp add: f_def)
qed

text \<open>
  Claim C6. The host's parse of the return-code slot skips leading white space, carriage
  returns, line feeds and tabs, and yields the first integer it reads: the content gives
  \<open>Some v\<close> exactly when it is white space, then an optional sign and a run of decimal
  digits that ends at the end of the content or at a character that is not a digit, \<open>v\<close>
  is the value of that signed run, and \<open>v\<close> fits an \<open>int\<close>. In every other case no integer
  can be parsed and the result is absent (\<open>None\<close>). What follows the first integer, white
  space and further numbers included, is not looked at.
\<close>

theorem parseReturnCode_first_integer:
  "parseReturnCode s = Some v \<longleftrightarrow>
     (\<exists>ws sg ds rest. s = ws @ sg @ ds @ rest \<and> (\<forall>c\<in>set ws. isspace c)
        \<and> (sg = [] \<or> sg = ''+'' \<or> sg = ''-'') \<and> ds \<noteq> [] \<and> (\<forall>c\<in>set ds. isdigit c)
        \<and> (rest = [] \<or> \<not> isdigit (hd rest))
        \<and> v = (if sg = ''-'' then - dec_val ds else dec_val ds)
        \<and> INT_MIN \<le> v \<and> v \<le> INT_MAX)"
proof -
  have "parseReturnCode s = Some v \<longleftrightarrow> scan_int s = Some v \<and> INT_MIN \<le> v \<and> v \<le> INT_MAX"
    by (auto simp: parseReturnCode_def extract_int_def scan_int_blank_out split: option.splits if_splits)
  then show ?thesis unfolding scan_int_decompose by blast
qed

theorem parseReturnCode_first_integer_witness:
  "parseReturnCode ('' '' @ [CR, LF, TAB] @ ''-42'' @ [CR, LF] @ ''7'') = Some (- 42)"
proof -
  have "\<exists>ws sg ds rest. '' '' @ [CR, LF, TAB] @ ''-42'' @ [CR, LF] @ ''7'' = ws @ sg @ ds @ rest
        \<and> (\<forall>c\<in>set ws. isspace c)
        \<and> (sg = [] \<or> sg = ''+'' \<or> sg = ''-'') \<and> ds \<noteq> [] \<and> (\<forall>c\<in>set ds. isdigit c)
        \<and> (rest = [] \<or> \<not> isdigit (hd rest))
        \<and> (- 42 :: int) = (if sg = ''-'' then - dec_val ds else dec_val ds)
        \<and> INT_MIN \<le> (- 42 :: int) \<and> (- 42 :: int) \<le> INT_MAX"
    by (rule exI [of _ "'' '' @ [CR, LF, TAB]"], rule exI [of _ "''-''"], rule exI [of _ "''42''"],
        rule exI [of _ "[CR, LF] @ ''7''"])
       (simp add: isspace_def isdigit_def CR_def LF_def TAB_def dec_val_def digit_val_def
          INT_MIN_def INT_MAX_def)
  then show ?thesis using parseReturnCode_first_integer [of "'' '' @ [CR, LF, TAB] @ ''-42'' @ [CR, LF] @ ''7''" "- 42"]
    by blast
qed

section \<open>The idle interval of the guest\<close>

lemma last_trace_sleep: "last (trace (ms_sleep n s)) = EvSleep n"
  by (simp add: ms_sleep_def)

lemma process_cmd_sleeps:
  "process_cmd env idle s = (False, s') \<Longrightarrow> last (trace s') = EvSleep (nat idle)"
  by (auto simp: process_cmd_def Let_def last_trace_sleep split: option.splits if_splits prod.splits)

lemma loop_body_sleeps:
  "loop_body env idle key s = (False, s') \<Longrightarrow> last (trace s') = EvSleep (nat idle)"
  by (auto simp: loop_body_def Let_def last_trace_sleep process_cmd_sleeps split: if_splits prod.splits)

text \<open>
  On a text whose value does not fit 32 bits the sample conversion wraps around, and the
  guard of \<open>main\<close> sees the wrapped value.
\<close>

lemma atoi32_wraps:
  "atoi32 ''4294967346'' = 50 \<and> main_idle_ms atoi32 [''4294967346''] = 50"
  by code_simp

text \<open>
  Claim C8, as the specification states it: the configured idle interval is clamped to
  the range from 10 ms to 2000 ms. The source does not clamp: a value of 5000 gives the
  default of 100 ms, where clamping gives 2000 ms.
\<close>

theorem idle_interval_clamp_counterexample:
  "atoi32 ''5000'' = 5000 \<and> main_idle_ms atoi32 [''5000''] = 100 \<and> clamp_idle_spec 5000 = 2000"
  by code_simp

text \<open>
  Claim C8, amended. The idle interval is 100 ms by default. A configured value is not
  clamped: it is used when the integer that \<open>atoi\<close> makes of it lies between 10 and 2000,
  and the default of 100 ms is kept otherwise. So the interval always lies in that range,
  and every pass of the loop that does not leave it ends by sleeping for that interval.
  This holds for every \<open>atoi\<close>, whatever it returns for a text that does not fit \<open>int\<close>.
\<close>

theorem idle_interval_guarded:
  assumes "loop_body env (main_idle_ms atoi args) key s = (False, s')"
  shows "main_idle_ms atoi args =
           (case args of [] \<Rightarrow> 100
            | a # others \<Rightarrow> if 10 \<le> atoi a \<and> atoi a \<le> 2000 then atoi a else 100)
         \<and> 10 \<le> main_idle_ms atoi args \<and> main_idle_ms atoi args \<le> 2000
         \<and> last (trace s') = EvSleep (nat (main_idle_ms atoi args))"
  using loop_body_sleeps [OF assms]
  by (auto simp: main_idle_ms_def Let_def split: list.splits)

theorem idle_interval_guarded_witness:
  "loop_body demo_env (main_idle_ms atoi32 [''250'']) None (demo_state Map.empty)
     = (False, (demo_state Map.empty)\<lparr>trace := [EvSleep 250]\<rparr>)
   \<and> main_idle_ms atoi32 [''250''] = 250
   \<and> last (trace ((demo_state Map.empty)\<lparr>trace := [EvSleep 250]\<rparr>))
       = EvSleep (nat (main_idle_ms atoi32 [''250'']))"
proof -
  have i: "main_idle_ms atoi32 [''250''] = 250" by code_simp
  have h: "loop_body demo_env (main_idle_ms atoi32 [''250'']) None (demo_state Map.empty)
     = (False, (demo_state Map.empty)\<lparr>trace := [EvSleep 250]\<rparr>)"
    by (simp add: i loop_body_def file_exists_def demo_state_def ms_sleep_def)
  from idle_interval_guarded [OF h] h i show ?thesis by simp
qed

section \<open>The guest's calls, one by one\<close>

lemmas names = CMD_TXT_def CMD_RUN_def OUT_TXT_def OUT_NEW_def RC_TXT_def RC_NEW_def
  STA_TXT_def STA_NEW_def LOG_TXT_def JOB_BAT_def

subsection \<open>What each call leaves unchanged\<close>

lemma log_line_keeps [simp]:
  "files (log_line m s) = files s" "nowrite (log_line m s) = nowrite s"
  "trace (log_line m s) = trace s" "errno (log_line m s) = errno s"
  by (simp_all add: log_line_def)


lemma c_remove_keeps [simp]:
  "nowrite (c_remove p s) = nowrite s" "logged (c_remove p s) = logged s"
  "errno (c_remove p s) = errno s"
  "files (c_remove p s) = (files s)(p := None)"
  "interpreter_runs (c_remove p s) = interpreter_runs s"
  by (simp_all add: c_remove_def interpreter_runs_def)

lemma ms_sleep_keeps [simp]:
  "nowrite (ms_sleep n s) = nowrite s" "logged (ms_sleep n s) = logged s"
  "errno (ms_sleep n s) = errno s" "files (ms_sleep n s) = files s"
  "interpreter_runs (ms_sleep n s) = interpreter_runs s"
  by (simp_all add: ms_sleep_def interpreter_runs_def)

lemma log_line_runs [simp]: "interpreter_runs (log_line m s) = interpreter_runs s"
  by (simp add: interpreter_runs_def)

lemma c_rename_keeps [simp]:
  "nowrite (snd (c_rename a b s)) = nowrite s" "logged (snd (c_rename a b s)) = logged s"
  "errno (snd (c_rename a b s)) = errno s"
  "interpreter_runs (snd (c_rename a b s)) = interpreter_runs s"
  by (simp_all add: c_rename_def Let_def interpreter_runs_def split: option.splits)

lemma fopen_w_keeps [simp]:
  "nowrite (snd (fopen_w p s)) = nowrite s" "logged (snd (fopen_w p s)) = logged s"
  "errno (snd (fopen_w p s)) = errno s"
  "interpreter_runs (snd (fopen_w p s)) = interpreter_runs s"
  "fst (fopen_w p s) = (p \<notin> nowrite s)"
  by (simp_all add: fopen_w_def Let_def interpreter_runs_def)

lemma fputs_keeps [simp]:
  "nowrite (fputs t p s) = nowrite s" "logged (fputs t p s) = logged s"
  "errno (fputs t p s) = errno s" "trace (fputs t p s) = trace s"
  "interpreter_runs (fputs t p s) = interpreter_runs s"
  by (simp_all add: fputs_def interpreter_runs_def)

lemma fputs_other: "q \<noteq> p \<Longrightarrow> files (fputs t p s) q = files s q"
  by (simp add: fputs_def)

lemma write_text_atomic_keeps [simp]:
  "nowrite (snd (write_text_atomic t f x s)) = nowrite s"
  "errno (snd (write_text_atomic t f x s)) = errno s"
  "logged (snd (write_text_atomic t f x s)) = logged s"
  "interpreter_runs (snd (write_text_atomic t f x s)) = interpreter_runs s"
  by (simp_all add: write_text_atomic_def Let_def split_beta)

lemma write_text_atomic_other:
  "q \<noteq> t \<Longrightarrow> q \<noteq> f \<Longrightarrow> files (snd (write_text_atomic t f x s)) q = files s q"
  by (simp add: write_text_atomic_def Let_def c_rename_def fopen_w_def fputs_def c_remove_def
      split: prod.splits option.splits)

lemma write_text_atomic_ok:
  "temp \<notin> nowrite s \<Longrightarrow> temp \<noteq> final \<Longrightarrow>
   write_text_atomic temp final text s =
     (True, s\<lparr>files := (files s)(temp := None, final \<mapsto> text @ CRLF),
              trace := trace s @ [EvRemove temp, EvFopenW temp, EvRemove final, EvRename temp final]\<rparr>)"
  by (simp add: write_text_atomic_def c_remove_def fopen_w_def fputs_def c_rename_def Let_def fun_upd_twist)

lemma write_text_atomic_files:
  "temp \<notin> nowrite s \<Longrightarrow> temp \<noteq> final \<Longrightarrow>
   files (snd (write_text_atomic temp final text s)) = (files s)(temp := None, final \<mapsto> text @ CRLF)"
  by (simp add: write_text_atomic_ok)

lemma set_status_keeps [simp]:
  "nowrite (set_status st s) = nowrite s" "errno (set_status st s) = errno s"
  "interpreter_runs (set_status st s) = interpreter_runs s"
  by (simp_all add: set_status_def Let_def split_beta)


lemma set_status_other:
  "q \<noteq> STA_NEW \<Longrightarrow> q \<noteq> STA_TXT \<Longrightarrow> files (set_status st s) q = files s q"
  by (simp add: set_status_def Let_def split_beta write_text_atomic_other)

lemma set_status_logged:
  "STA_NEW \<notin> nowrite s \<Longrightarrow> logged (set_status st s) = logged s"
  by (simp add: set_status_def write_text_atomic_ok names)

lemma set_status_files:
  "STA_NEW \<notin> nowrite s \<Longrightarrow>
   files (set_status st s) = (files s)(STA_NEW := None, STA_TXT \<mapsto> st @ CRLF)"
  by (simp add: set_status_def write_text_atomic_ok names)

subsection \<open>Claiming the command\<close>

lemma claim_cmd_some:
  "files s CMD_TXT = Some c \<Longrightarrow>
   claim_cmd s = (True, s\<lparr>trace := trace s @ [EvRemove CMD_RUN, EvRename CMD_TXT CMD_RUN],
                          files := (files s)(CMD_RUN := None, CMD_TXT := None, CMD_RUN \<mapsto> c)\<rparr>)"
  by (simp add: claim_cmd_def eval_nat_numeral file_exists_def c_remove_def c_rename_def Let_def names)

lemma loop_body_esc:
  "loop_body env idle (Some 27) s = (True, set_status ''BYE'' (log_line ''ESC pressed; exiting'' s))"
  by (simp add: loop_body_def)

lemma loop_body_claimed:
  "key \<noteq> Some 27 \<Longrightarrow> files s CMD_RUN = Some c \<Longrightarrow>
   loop_body env idle key s = process_cmd env idle s"
  by (simp add: loop_body_def file_exists_def)

lemma loop_body_claims:
  "key \<noteq> Some 27 \<Longrightarrow> files s CMD_RUN = None \<Longrightarrow> files s CMD_TXT = Some c \<Longrightarrow>
   loop_body env idle key s =
     process_cmd env idle
       (log_line ''Claimed CMD.TXT -> CMD.RUN''
          (s\<lparr>trace := trace s @ [EvRemove CMD_RUN, EvRename CMD_TXT CMD_RUN],
             files := (files s)(CMD_RUN := None, CMD_TXT := None, CMD_RUN \<mapsto> c)\<rparr>))"
  by (simp add: loop_body_def file_exists_def claim_cmd_some)

text \<open>
  Either way the command reaches \<open>process_cmd\<close> as the content of \<open>CMD.RUN\<close>, with the
  same files that cannot be written and no run of the interpreter added.
\<close>

lemma loop_body_process:
  assumes "key \<noteq> Some 27"
    and "files s CMD_RUN = Some c \<or> (files s CMD_RUN = None \<and> files s CMD_TXT = Some c)"
  obtains s0 where "loop_body env idle key s = process_cmd env idle s0"
    and "files s0 CMD_RUN = Some c" and "nowrite s0 = nowrite s"
    and "interpreter_runs s0 = interpreter_runs s"
    and "\<And>q. q \<noteq> CMD_RUN \<Longrightarrow> q \<noteq> CMD_TXT \<Longrightarrow> files s0 q = files s q"
proof (cases "files s CMD_RUN = Some c")
  case True
  show ?thesis
    by (rule that [of s]) (simp_all add: loop_body_claimed [OF assms(1) True] True)
next
  case False
  with assms(2) have n: "files s CMD_RUN = None" and t: "files s CMD_TXT = Some c" by auto
  show ?thesis
    by (rule that [OF loop_body_claims [OF assms(1) n t]])
       (simp_all add: interpreter_runs_def)
qed

subsection \<open>The exit directive\<close>

lemma process_cmd_exit:
  assumes c: "files s CMD_RUN = Some c" and f: "first_nonempty c = Some w" and e: "is_exit_cmd w"
    and w: "OUT_NEW \<notin> nowrite s" "RC_NEW \<notin> nowrite s" "STA_NEW \<notin> nowrite s"
  shows "fst (process_cmd env idle s)"
    and "files (snd (process_cmd env idle s)) =
           (files s)(STA_NEW := None, OUT_NEW := None, RC_NEW := None, CMD_RUN := None,
                     OUT_TXT \<mapsto> ''MBXSRV BYE'' @ CRLF, RC_TXT \<mapsto> ''0'' @ CRLF,
                     STA_TXT \<mapsto> ''BYE'' @ CRLF)"
    and "interpreter_runs (snd (process_cmd env idle s)) = interpreter_runs s"
proof -
  have r: "read_first_nonempty_line CMD_RUN (set_status ''RUNNING'' s) = Some w"
    using c f by (simp add: read_first_nonempty_line_def set_status_other names)
  show "fst (process_cmd env idle s)"
    by (simp add: process_cmd_def r e Let_def)
  show "interpreter_runs (snd (process_cmd env idle s)) = interpreter_runs s"
    by (simp add: process_cmd_def r e Let_def)
  show "files (snd (process_cmd env idle s)) =
           (files s)(STA_NEW := None, OUT_NEW := None, RC_NEW := None, CMD_RUN := None,
                     OUT_TXT \<mapsto> ''MBXSRV BYE'' @ CRLF, RC_TXT \<mapsto> ''0'' @ CRLF,
                     STA_TXT \<mapsto> ''BYE'' @ CRLF)"
  proof -
    have s1: "files (set_status ''RUNNING'' s) = (files s)(STA_NEW := None, STA_TXT \<mapsto> ''RUNNING'' @ CRLF)"
      using w by (simp add: set_status_files)
    define s2 where "s2 = log_line ''Received EXIT/QUIT'' (set_status ''RUNNING'' s)"
    have n2: "nowrite s2 = nowrite s" and f2: "files s2 = files (set_status ''RUNNING'' s)"
      by (simp_all add: s2_def)
    define s3 where "s3 = snd (write_text_atomic OUT_NEW OUT_TXT ''MBXSRV BYE'' s2)"
    have n3: "nowrite s3 = nowrite s2" by (simp add: s3_def)
    have f3: "files s3 = (files s2)(OUT_NEW := None, OUT_TXT \<mapsto> ''MBXSRV BYE'' @ CRLF)"
      unfolding s3_def using w n2 by (intro write_text_atomic_files) (simp_all add: names)
    define s4 where "s4 = snd (write_text_atomic RC_NEW RC_TXT ''0'' s3)"
    have n4: "nowrite s4 = nowrite s3" by (simp add: s4_def)
    have f4: "files s4 = (files s3)(RC_NEW := None, RC_TXT \<mapsto> ''0'' @ CRLF)"
      unfolding s4_def using w n2 n3 by (intro write_text_atomic_files) (simp_all add: names)
    define s5 where "s5 = c_remove CMD_RUN s4"
    have n5: "nowrite s5 = nowrite s" by (simp add: s5_def n4 n3 n2)
    have f5: "files s5 = (files s4)(CMD_RUN := None)" by (simp add: s5_def)
    have f6: "files (set_status ''BYE'' s5) = (files s5)(STA_NEW := None, STA_TXT \<mapsto> ''BYE'' @ CRLF)"
      using w n5 by (simp add: set_status_files)
    have p: "snd (process_cmd env idle s) = set_status ''BYE'' s5"
      by (simp add: process_cmd_def r e Let_def s5_def s4_def s3_def s2_def)
    show ?thesis
      unfolding p f6 f5 f4 f3 f2 s1 by (rule ext) (simp add: names)
  qed
qed



text \<open>
  Claim C1. When the command that the guest has claimed (it is \<open>CMD.RUN\<close> already, or it
  is published as \<open>CMD.TXT\<close> and claimed in this pass) has only blank lines before a line
  that is EXIT or QUIT in any letter case, a pass of the loop that is not stopped by the
  ESC key and that can open its staging files publishes the output line \<open>MBXSRV BYE\<close>
  and the return code \<open>0\<close> (each with its line end; the host parses the code as 0),
  deletes the claimed command, leaves the status \<open>BYE\<close> and leaves the loop.
\<close>

theorem exit_directive_says_bye:
  assumes "key \<noteq> Some 27"
    and "files s CMD_RUN = Some (pre @ w @ post)
         \<or> (files s CMD_RUN = None \<and> files s CMD_TXT = Some (pre @ w @ post))"
    and "\<forall>ch\<in>set pre. isspace ch" and "pre = [] \<or> last pre = LF"
    and "map toupper w = ''EXIT'' \<or> map toupper w = ''QUIT''"
    and "post = [] \<or> hd post = LF \<or> take 2 post = CRLF"
    and "OUT_NEW \<notin> nowrite s" and "RC_NEW \<notin> nowrite s" and "STA_NEW \<notin> nowrite s"
  shows "fst (loop_body env idle key s)
         \<and> files (snd (loop_body env idle key s)) OUT_TXT = Some (''MBXSRV BYE'' @ CRLF)
         \<and> files (snd (loop_body env idle key s)) RC_TXT = Some (''0'' @ CRLF)
         \<and> parseReturnCode (''0'' @ CRLF) = Some 0
         \<and> files (snd (loop_body env idle key s)) CMD_RUN = None
         \<and> files (snd (loop_body env idle key s)) STA_TXT = Some (''BYE'' @ CRLF)
         \<and> interpreter_runs (snd (loop_body env idle key s)) = interpreter_runs s"
proof -
  from first_nonempty_exit [OF assms(3,4,5,6)]
  have f: "first_nonempty (pre @ w @ post) = Some w" and e: "is_exit_cmd w" by simp_all
  from assms(1,2) obtain s0 where l: "loop_body env idle key s = process_cmd env idle s0"
    and c: "files s0 CMD_RUN = Some (pre @ w @ post)" and n: "nowrite s0 = nowrite s"
    and i: "interpreter_runs s0 = interpreter_runs s"
    by (rule loop_body_process)
  have w: "OUT_NEW \<notin> nowrite s0" "RC_NEW \<notin> nowrite s0" "STA_NEW \<notin> nowrite s0"
    using assms(7,8,9) n by simp_all
  note p = process_cmd_exit [OF c f e w, of env idle]
  have "parseReturnCode (''0'' @ CRLF) = Some 0" by code_simp
  then show ?thesis unfolding l using p(1) i by (simp add: p(2,3) names)
qed

theorem exit_directive_says_bye_witness:
  "fst (loop_body demo_env 100 None (demo_state [CMD_TXT \<mapsto> demo_quit_cmd]))
   \<and> files (snd (loop_body demo_env 100 None (demo_state [CMD_TXT \<mapsto> demo_quit_cmd]))) OUT_TXT
       = Some (''MBXSRV BYE'' @ CRLF)
   \<and> files (snd (loop_body demo_env 100 None (demo_state [CMD_TXT \<mapsto> demo_quit_cmd]))) RC_TXT
       = Some (''0'' @ CRLF)
   \<and> files (snd (loop_body demo_env 100 None (demo_state [CMD_TXT \<mapsto> demo_quit_cmd]))) CMD_RUN = None
   \<and> files (snd (loop_body demo_env 100 None (demo_state [CMD_TXT \<mapsto> demo_quit_cmd]))) STA_TXT
       = Some (''BYE'' @ CRLF)"
proof -
  let ?s = "demo_state [CMD_TXT \<mapsto> demo_quit_cmd]"
  have k: "(None :: int option) \<noteq> Some 27" by simp
  have c: "files ?s CMD_RUN = Some (([LF] @ ''  '' @ [LF]) @ ''quit'' @ (CRLF @ ''dir'' @ CRLF))
      \<or> (files ?s CMD_RUN = None
          \<and> files ?s CMD_TXT = Some (([LF] @ ''  '' @ [LF]) @ ''quit'' @ (CRLF @ ''dir'' @ CRLF)))"
    by (simp add: demo_state_def demo_quit_cmd_def names)
  have b: "\<forall>ch\<in>set ([LF] @ ''  '' @ [LF]). isspace ch" by (simp add: isspace_def LF_def)
  have l: "[LF] @ ''  '' @ [LF] = [] \<or> last ([LF] @ ''  '' @ [LF]) = LF" by simp
  have u: "map toupper ''quit'' = ''EXIT'' \<or> map toupper ''quit'' = ''QUIT''" by code_simp
  have p: "CRLF @ ''dir'' @ CRLF = [] \<or> hd (CRLF @ ''dir'' @ CRLF) = LF
           \<or> take 2 (CRLF @ ''dir'' @ CRLF) = CRLF" by (simp add: CRLF_def)
  have w: "OUT_NEW \<notin> nowrite ?s" "RC_NEW \<notin> nowrite ?s" "STA_NEW \<notin> nowrite ?s"
    by (simp_all add: demo_state_def)
  from exit_directive_says_bye [OF k c b l u p w, of demo_env 100] show ?thesis by simp
qed

section \<open>Oversized payloads\<close>

subsection \<open>Building the job\<close>

lemma copy_payload_keeps:
  "nowrite (snd (snd (copy_payload rest tot s))) = nowrite s
   \<and> logged (snd (snd (copy_payload rest tot s))) = logged s
   \<and> errno (snd (snd (copy_payload rest tot s))) = errno s
   \<and> trace (snd (snd (copy_payload rest tot s))) = trace s
   \<and> (\<forall>q. q \<noteq> JOB_BAT \<longrightarrow> files (snd (snd (copy_payload rest tot s))) q = files s q)"
proof (induction rest tot s rule: copy_payload.induct)
  case (1 rest tot s)
  show ?case
  proof (cases "fgets MAX_LINE rest")
    case None
    then show ?thesis by (subst copy_payload.simps, simp)+
  next
    case (Some x)
    obtain line rest' where x: "x = (line, rest')" by (cases x)
    show ?thesis
    proof (cases "tot + int (strlen line) > MAX_PAYLOAD")
      case True
      then show ?thesis using Some x
        by (subst copy_payload.simps, simp add: fputs_other)+
    next
      case False
      have eq: "copy_payload rest tot s
                = copy_payload rest' (tot + int (strlen line)) (fputs (cstr line) JOB_BAT s)"
        using Some x False by (subst copy_payload.simps) simp
      from "1.IH" [OF Some x [symmetric] refl] False
      show ?thesis unfolding eq by (simp add: fputs_other)
    qed
  qed
qed

lemma copy_payload_too_large:
  "NUL \<notin> set rest \<Longrightarrow> tot \<le> MAX_PAYLOAD \<Longrightarrow> tot + int (length rest) > MAX_PAYLOAD \<Longrightarrow>
   \<not> fst (copy_payload rest tot s)"
proof (induction rest tot s rule: copy_payload.induct)
  case (1 rest tot s)
  from "1.prems"(2,3) have ne: "rest \<noteq> []" by auto
  obtain line rest' where t: "fgets_take 511 rest = (line, rest')" by (cases "fgets_take 511 rest")
  have g: "fgets MAX_LINE rest = Some (line, rest')"
    using ne t by (simp add: fgets_def MAX_LINE_def)
  have split: "rest = line @ rest'" using t by (rule fgets_take_split)
  have len: "strlen line = length line"
    using "1.prems"(1) split by (simp add: strlen_def cstr_no_NUL)
  show ?case
  proof (cases "tot + int (strlen line) > MAX_PAYLOAD")
    case True
    then show ?thesis using g by (subst copy_payload.simps) simp
  next
    case False
    have eq: "copy_payload rest tot s
              = copy_payload rest' (tot + int (strlen line)) (fputs (cstr line) JOB_BAT s)"
      using g False by (subst copy_payload.simps) simp
    have "\<not> fst (copy_payload rest' (tot + int (strlen line)) (fputs (cstr line) JOB_BAT s))"
    proof (rule "1.IH" [OF g refl refl])
      show "\<not> MAX_PAYLOAD < tot + int (strlen line)" using False by simp
      show "NUL \<notin> set rest'" using "1.prems"(1) split by auto
      show "tot + int (strlen line) \<le> MAX_PAYLOAD" using False by simp
      show "MAX_PAYLOAD < tot + int (strlen line) + int (length rest')"
        using "1.prems"(3) split len by simp
    qed
    then show ?thesis unfolding eq .
  qed
qed

lemma copy_payload_keeps_simps [simp]:
  "nowrite (snd (snd (copy_payload rest tot s))) = nowrite s"
  "logged (snd (snd (copy_payload rest tot s))) = logged s"
  "errno (snd (snd (copy_payload rest tot s))) = errno s"
  "interpreter_runs (snd (snd (copy_payload rest tot s))) = interpreter_runs s"
  using copy_payload_keeps [of rest tot s] by (simp_all add: interpreter_runs_def)

lemma build_job_keeps [simp]:
  "nowrite (snd (snd (build_job_bat_from_cmd p s))) = nowrite s"
  "logged (snd (snd (build_job_bat_from_cmd p s))) = logged s"
  "errno (snd (snd (build_job_bat_from_cmd p s))) = errno s"
  "interpreter_runs (snd (snd (build_job_bat_from_cmd p s))) = interpreter_runs s"
  by (simp_all add: build_job_bat_from_cmd_def Let_def split_beta split: option.splits)

lemma build_job_other:
  "q \<noteq> JOB_BAT \<Longrightarrow> q \<noteq> RC_NEW \<Longrightarrow> files (snd (snd (build_job_bat_from_cmd p s))) q = files s q"
  by (simp add: build_job_bat_from_cmd_def Let_def split_beta copy_payload_keeps fputs_other
        fopen_w_def
      split: option.splits)

lemma build_job_too_large:
  assumes "files s CMD_RUN = Some c" and "NUL \<notin> set c" and "int (length c) > MAX_PAYLOAD"
  shows "\<not> fst (build_job_bat_from_cmd CMD_RUN s)"
proof -
  have "files (c_remove RC_NEW (c_remove JOB_BAT s)) CMD_RUN = Some c"
    using assms(1) by (simp add: names)
  moreover have "\<not> fst (copy_payload c 0 t)" for t
    using assms(2,3) by (intro copy_payload_too_large) (simp_all add: MAX_PAYLOAD_def)
  ultimately show ?thesis
    by (simp add: build_job_bat_from_cmd_def Let_def split_beta)
qed


subsection \<open>The diagnostic output\<close>

lemma write_error_output_keeps [simp]:
  "nowrite (write_error_output what s) = nowrite s"
  "logged (write_error_output what s) = logged s"
  "interpreter_runs (write_error_output what s) = interpreter_runs s"
  by (simp_all add: write_error_output_def Let_def split_beta)

lemma fopen_w_files:
  "p \<notin> nowrite s \<Longrightarrow> files (snd (fopen_w p s)) = (files s)(p \<mapsto> [])"
  by (simp add: fopen_w_def)

lemma fputs_files:
  "files s p = Some x \<Longrightarrow> files (fputs t p s) = (files s)(p \<mapsto> x @ t)"
  by (simp add: fputs_def)

lemma c_rename_files:
  "files s a = Some x \<Longrightarrow> files s b = None \<Longrightarrow>
   files (snd (c_rename a b s)) = (files s)(a := None, b \<mapsto> x)"
  by (simp add: c_rename_def)

lemma write_error_output_files:
  assumes "OUT_NEW \<notin> nowrite s" and "RC_NEW \<notin> nowrite s"
  shows "files (write_error_output what s) =
           (files s)(OUT_NEW := None, RC_NEW := None,
                     OUT_TXT \<mapsto> ''ERROR: '' @ what @ CRLF @ ''errno='' @ dec_int (errno s) @ CRLF,
                     RC_TXT \<mapsto> ''1'' @ CRLF)"
proof -
  define s2 where "s2 = snd (fopen_w OUT_NEW (c_remove OUT_NEW s))"
  have f2: "files s2 = (files s)(OUT_NEW \<mapsto> [])"
    using assms(1) by (simp add: s2_def fopen_w_files)
  have e2: "errno s2 = errno s" and n2: "nowrite s2 = nowrite s" by (simp_all add: s2_def)
  define s3 where "s3 = fputs (''ERROR: '' @ what @ CRLF) OUT_NEW s2"
  have f3: "files s3 = (files s)(OUT_NEW \<mapsto> ''ERROR: '' @ what @ CRLF)"
    unfolding s3_def by (subst fputs_files [where x = "[]"]) (simp_all add: f2)
  have e3: "errno s3 = errno s" and n3: "nowrite s3 = nowrite s" by (simp_all add: s3_def e2 n2)
  define out where "out = ''ERROR: '' @ what @ CRLF @ ''errno='' @ dec_int (errno s) @ CRLF"
  define s4 where "s4 = fputs (''errno='' @ dec_int (errno s3) @ CRLF) OUT_NEW s3"
  have f4: "files s4 = (files s)(OUT_NEW \<mapsto> out)"
    unfolding s4_def
    by (subst fputs_files [where x = "''ERROR: '' @ what @ CRLF"]) (simp_all add: f3 e3 out_def)
  have n4: "nowrite s4 = nowrite s" by (simp add: s4_def n3)
  define s6 where "s6 = snd (c_rename OUT_NEW OUT_TXT (c_remove OUT_TXT s4))"
  have f6: "files s6 = (files s)(OUT_NEW := None, OUT_TXT \<mapsto> out)"
    unfolding s6_def
    by (subst c_rename_files [where x = out]) (auto simp: f4 names)
  have n6: "nowrite s6 = nowrite s" by (simp add: s6_def n4)
  define s8 where "s8 = snd (fopen_w RC_NEW (c_remove RC_NEW s6))"
  have f8: "files s8 = (files s6)(RC_NEW \<mapsto> [])"
    using assms(2) n6 by (simp add: s8_def fopen_w_files)
  have n8: "nowrite s8 = nowrite s" by (simp add: s8_def n6)
  define s9 where "s9 = fputs (''1'' @ CRLF) RC_NEW s8"
  have f9: "files s9 = (files s6)(RC_NEW \<mapsto> ''1'' @ CRLF)"
    unfolding s9_def by (subst fputs_files [where x = "[]"]) (simp_all add: f8)
  define s11 where "s11 = snd (c_rename RC_NEW RC_TXT (c_remove RC_TXT s9))"
  have f11: "files s11 = (files s6)(RC_NEW := None, RC_TXT \<mapsto> ''1'' @ CRLF)"
    unfolding s11_def
    by (subst c_rename_files [where x = "''1'' @ CRLF"]) (auto simp: f9 names)
  have ok1: "fst (fopen_w OUT_NEW (c_remove OUT_NEW s))" using assms(1) by simp
  have ok2: "fst (fopen_w RC_NEW (c_remove RC_NEW s6))" using assms(2) n6 by simp
  have w: "write_error_output what s = s11"
    unfolding write_error_output_def Let_def split_beta
    using ok1 ok2
    by (simp only: s11_def s9_def s8_def s6_def s4_def s3_def s2_def if_True if_False not_True_eq_False)
  show ?thesis unfolding w f11 f6 out_def by (rule ext) (simp add: names)
qed

text \<open>
  Both failure paths of \<open>process_cmd\<close> end alike: log, diagnostic output, delete the
  command, status \<open>READY\<close>, sleep.
\<close>

lemma error_tail:
  fixes t :: gstate and n :: nat and what m :: string
  assumes "OUT_NEW \<notin> nowrite t" and "RC_NEW \<notin> nowrite t" and "STA_NEW \<notin> nowrite t"
  defines "s' \<equiv> ms_sleep n (set_status ''READY'' (c_remove CMD_RUN
                   (write_error_output what (log_line m t))))"
  shows "files s' OUT_TXT = Some (''ERROR: '' @ what @ CRLF @ ''errno='' @ dec_int (errno t) @ CRLF)"
    and "files s' RC_TXT = Some (''1'' @ CRLF)"
    and "files s' CMD_RUN = None"
    and "files s' STA_TXT = Some (''READY'' @ CRLF)"
    and "interpreter_runs s' = interpreter_runs t"
proof -
  have f: "files s' = (files (write_error_output what (log_line m t)))
                        (CMD_RUN := None, STA_NEW := None, STA_TXT \<mapsto> ''READY'' @ CRLF)"
    using assms(3) by (simp add: s'_def set_status_files)
  have g: "files (write_error_output what (log_line m t)) =
           (files t)(OUT_NEW := None, RC_NEW := None,
                     OUT_TXT \<mapsto> ''ERROR: '' @ what @ CRLF @ ''errno='' @ dec_int (errno t) @ CRLF,
                     RC_TXT \<mapsto> ''1'' @ CRLF)"
    using write_error_output_files [of "log_line m t" what] assms(1,2) by simp
  show "files s' OUT_TXT = Some (''ERROR: '' @ what @ CRLF @ ''errno='' @ dec_int (errno t) @ CRLF)"
    unfolding f g by (simp add: names)
  show "files s' RC_TXT = Some (''1'' @ CRLF)" unfolding f g by (simp add: names)
  show "files s' CMD_RUN = None" unfolding f g by (simp add: names)
  show "files s' STA_TXT = Some (''READY'' @ CRLF)" unfolding f g by (simp add: names)
  show "interpreter_runs s' = interpreter_runs t" by (simp add: s'_def)
qed

lemma process_cmd_too_large:
  assumes c: "files s CMD_RUN = Some c" and nul: "NUL \<notin> set c"
    and big: "int (length c) > MAX_PAYLOAD"
    and ne: "\<forall>w. first_nonempty c = Some w \<longrightarrow> \<not> is_exit_cmd w"
    and w: "OUT_NEW \<notin> nowrite s" "RC_NEW \<notin> nowrite s" "STA_NEW \<notin> nowrite s"
  shows "\<not> fst (process_cmd env idle s)
         \<and> interpreter_runs (snd (process_cmd env idle s)) = interpreter_runs s
         \<and> (\<exists>d. files (snd (process_cmd env idle s)) OUT_TXT = Some (''ERROR: '' @ d))
         \<and> files (snd (process_cmd env idle s)) RC_TXT = Some (''1'' @ CRLF)
         \<and> files (snd (process_cmd env idle s)) CMD_RUN = None
         \<and> files (snd (process_cmd env idle s)) STA_TXT = Some (''READY'' @ CRLF)"
proof -
  define s1 where "s1 = set_status ''RUNNING'' s"
  have c1: "files s1 CMD_RUN = Some c" using c by (simp add: s1_def set_status_other names)
  have n1: "nowrite s1 = nowrite s" and i1: "interpreter_runs s1 = interpreter_runs s"
    by (simp_all add: s1_def)
  have r: "read_first_nonempty_line CMD_RUN s1 = first_nonempty c"
    using c1 by (simp add: read_first_nonempty_line_def)
  show ?thesis
  proof (cases "first_nonempty c")
    case None
    have p: "process_cmd env idle s =
             (False, ms_sleep (nat idle) (set_status ''READY'' (c_remove CMD_RUN
                (write_error_output ''CMD file is empty'' (log_line ''ERROR: CMD.RUN empty'' s1)))))"
      by (simp add: process_cmd_def s1_def [symmetric] r None Let_def)
    have t: "OUT_NEW \<notin> nowrite s1" "RC_NEW \<notin> nowrite s1" "STA_NEW \<notin> nowrite s1"
      using w n1 by simp_all
    note e = error_tail [OF t, of "nat idle" "''CMD file is empty''" "''ERROR: CMD.RUN empty''"]
    have d: "\<exists>d. files (snd (process_cmd env idle s)) OUT_TXT = Some (''ERROR: '' @ d)"
      unfolding p snd_conv by (intro exI) (rule e(1))
    show ?thesis
      apply (intro conjI)
           apply (simp add: p)
          apply (simp only: p snd_conv e(5) i1)
         apply (rule d)
        apply (simp only: p snd_conv e(2))
       apply (simp only: p snd_conv e(3))
      apply (simp only: p snd_conv e(4))
      done
  next
    case (Some first)
    with ne have nx: "\<not> is_exit_cmd first" by simp
    define b where "b = build_job_bat_from_cmd CMD_RUN s1"
    have bf: "\<not> fst b" unfolding b_def using c1 nul big by (rule build_job_too_large)
    have p: "process_cmd env idle s =
             (False, ms_sleep (nat idle) (set_status ''READY'' (c_remove CMD_RUN
                (write_error_output ''Failed to build MBXJOB.BAT (payload too large or file error)''
                   (log_line (''ERROR: build_job_bat failed (payload='' @ dec_int (fst (snd b))
                              @ '', errno='' @ dec_int (errno (snd (snd b))) @ '')'')
                      (snd (snd b)))))))"
      using bf by (simp add: process_cmd_def s1_def [symmetric] r Some nx Let_def split_beta
          b_def [symmetric])
    have nb: "nowrite (snd (snd b)) = nowrite s"
      and ib: "interpreter_runs (snd (snd b)) = interpreter_runs s"
      by (simp_all add: b_def n1 i1)
    have t: "OUT_NEW \<notin> nowrite (snd (snd b))" "RC_NEW \<notin> nowrite (snd (snd b))"
      "STA_NEW \<notin> nowrite (snd (snd b))"
      using w nb by simp_all
    note e = error_tail [OF t, of "nat idle"
        "''Failed to build MBXJOB.BAT (payload too large or file error)''"
        "''ERROR: build_job_bat failed (payload='' @ dec_int (fst (snd b))
           @ '', errno='' @ dec_int (errno (snd (snd b))) @ '')''"]
    have d: "\<exists>d. files (snd (process_cmd env idle s)) OUT_TXT = Some (''ERROR: '' @ d)"
      unfolding p snd_conv by (intro exI) (rule e(1))
    show ?thesis
      apply (intro conjI)
           apply (simp add: p)
          apply (simp only: p snd_conv e(5) ib)
         apply (rule d)
        apply (simp only: p snd_conv e(2))
       apply (simp only: p snd_conv e(3))
      apply (simp only: p snd_conv e(4))
      done
  qed
qed





text \<open>
  Claim C2, as the specification states it: every claimed command whose payload exceeds
  32 KiB gets the return code \<open>1\<close> and the status \<open>READY\<close>. The source looks at the
  directive before it measures the payload: a claimed command of 32773 characters whose
  first line is \<open>EXIT\<close> gets the return code \<open>0\<close> and the status \<open>BYE\<close>, and the loop
  is left.
\<close>

theorem oversized_payload_counterexample:
  "int (length demo_big_exit) > MAX_PAYLOAD
   \<and> fst (loop_body demo_env 100 None (demo_state [CMD_RUN \<mapsto> demo_big_exit]))
   \<and> files (snd (loop_body demo_env 100 None (demo_state [CMD_RUN \<mapsto> demo_big_exit]))) RC_TXT
       = Some (''0'' @ CRLF)
   \<and> files (snd (loop_body demo_env 100 None (demo_state [CMD_RUN \<mapsto> demo_big_exit]))) STA_TXT
       = Some (''BYE'' @ CRLF)"
proof -
  let ?s = "demo_state [CMD_RUN \<mapsto> demo_big_exit]"
  have c: "files ?s CMD_RUN = Some demo_big_exit" by (simp add: demo_state_def)
  have u: "map toupper ''EXIT'' = ''EXIT'' \<or> map toupper ''EXIT'' = ''QUIT''" by code_simp
  have "first_nonempty ([] @ ''EXIT'' @ (LF # replicate 32768 (CHR ''x''))) = Some ''EXIT''
        \<and> is_exit_cmd ''EXIT''"
    by (rule first_nonempty_exit [OF _ _ u]) simp_all
  then have f: "first_nonempty demo_big_exit = Some ''EXIT''" and e: "is_exit_cmd ''EXIT''"
    by (simp_all add: demo_big_exit_def)
  have w: "OUT_NEW \<notin> nowrite ?s" "RC_NEW \<notin> nowrite ?s" "STA_NEW \<notin> nowrite ?s"
    by (simp_all add: demo_state_def)
  have l: "loop_body demo_env 100 None ?s = process_cmd demo_env 100 ?s"
    by (rule loop_body_claimed [OF _ c]) simp
  note p = process_cmd_exit [OF c f e w, of demo_env 100]
  have "int (length demo_big_exit) > MAX_PAYLOAD"
    by (simp add: demo_big_exit_def MAX_PAYLOAD_def)
  moreover have "files (snd (process_cmd demo_env 100 ?s)) RC_TXT = Some (''0'' @ CRLF)"
    unfolding p(2) by (simp add: names)
  moreover have "files (snd (process_cmd demo_env 100 ?s)) STA_TXT = Some (''BYE'' @ CRLF)"
    unfolding p(2) by (simp add: names)
  ultimately show ?thesis unfolding l using p(1) by blast
qed

text \<open>
  Claim C2, amended. When the claimed command is longer than 32 KiB (it holds no NUL
  byte, so that its length is what the guest counts) and its directive is not EXIT or
  QUIT, a pass of the loop that is not stopped by the ESC key and that can open its
  staging files never runs the interpreter: building the wrapper fails from any state
  that holds this command, an output that starts with \<open>ERROR:\<close> is published, the
  return code slot holds \<open>1\<close>, the claimed command is deleted, the status is \<open>READY\<close> and
  the loop goes on.
\<close>

theorem oversized_payload_never_runs:
  assumes "key \<noteq> Some 27"
    and "files s CMD_RUN = Some c \<or> (files s CMD_RUN = None \<and> files s CMD_TXT = Some c)"
    and "int (length c) > MAX_PAYLOAD" and "NUL \<notin> set c"
    and "\<forall>w. first_nonempty c = Some w \<longrightarrow> \<not> is_exit_cmd w"
    and "OUT_NEW \<notin> nowrite s" and "RC_NEW \<notin> nowrite s" and "STA_NEW \<notin> nowrite s"
  shows "\<not> fst (loop_body env idle key s)
         \<and> interpreter_runs (snd (loop_body env idle key s)) = interpreter_runs s
         \<and> (\<forall>t. files t CMD_RUN = Some c \<longrightarrow> \<not> fst (build_job_bat_from_cmd CMD_RUN t))
         \<and> (\<exists>d. files (snd (loop_body env idle key s)) OUT_TXT = Some (''ERROR: '' @ d))
         \<and> files (snd (loop_body env idle key s)) RC_TXT = Some (''1'' @ CRLF)
         \<and> files (snd (loop_body env idle key s)) CMD_RUN = None
         \<and> files (snd (loop_body env idle key s)) STA_TXT = Some (''READY'' @ CRLF)"
proof -
  from assms(1,2) obtain s0 where l: "loop_body env idle key s = process_cmd env idle s0"
    and c: "files s0 CMD_RUN = Some c" and n: "nowrite s0 = nowrite s"
    and i: "interpreter_runs s0 = interpreter_runs s"
    by (rule loop_body_process)
  have w: "OUT_NEW \<notin> nowrite s0" "RC_NEW \<notin> nowrite s0" "STA_NEW \<notin> nowrite s0"
    using assms(6,7,8) n by simp_all
  note p = process_cmd_too_large [OF c assms(4,3,5) w, of env idle]
  have b: "\<forall>t. files t CMD_RUN = Some c \<longrightarrow> \<not> fst (build_job_bat_from_cmd CMD_RUN t)"
    using build_job_too_large [OF _ assms(4,3)] by blast
  show ?thesis unfolding l using p b i by simp
qed

theorem oversized_payload_never_runs_witness:
  "\<not> fst (loop_body demo_env 100 None (demo_state [CMD_RUN \<mapsto> demo_big_dir]))
   \<and> interpreter_runs (snd (loop_body demo_env 100 None (demo_state [CMD_RUN \<mapsto> demo_big_dir]))) = []
   \<and> files (snd (loop_body demo_env 100 None (demo_state [CMD_RUN \<mapsto> demo_big_dir]))) RC_TXT
       = Some (''1'' @ CRLF)
   \<and> files (snd (loop_body demo_env 100 None (demo_state [CMD_RUN \<mapsto> demo_big_dir]))) CMD_RUN = None
   \<and> files (snd (loop_body demo_env 100 None (demo_state [CMD_RUN \<mapsto> demo_big_dir]))) STA_TXT
       = Some (''READY'' @ CRLF)"
proof -
  let ?s = "demo_state [CMD_RUN \<mapsto> demo_big_dir]"
  have k: "(None :: int option) \<noteq> Some 27" by simp
  have c: "files ?s CMD_RUN = Some demo_big_dir
           \<or> (files ?s CMD_RUN = None \<and> files ?s CMD_TXT = Some demo_big_dir)"
    by (simp add: demo_state_def)
  have big: "int (length demo_big_dir) > MAX_PAYLOAD"
    by (simp add: demo_big_dir_def MAX_PAYLOAD_def)
  have nul: "NUL \<notin> set demo_big_dir" by (simp add: demo_big_dir_def NUL_def LF_def)
  have "first_nonempty (''dir'' @ (LF # replicate 32768 (CHR ''x''))) = Some ''dir''"
    by (rule first_nonempty_word) (simp_all add: isspace_def NUL_def LF_def CR_def)
  then have f: "first_nonempty demo_big_dir = Some ''dir''" by (simp add: demo_big_dir_def)
  have x: "\<not> is_exit_cmd ''dir''" by code_simp
  have ne: "\<forall>w. first_nonempty demo_big_dir = Some w \<longrightarrow> \<not> is_exit_cmd w"
    using f x by simp
  have w: "OUT_NEW \<notin> nowrite ?s" "RC_NEW \<notin> nowrite ?s" "STA_NEW \<notin> nowrite ?s"
    by (simp_all add: demo_state_def)
  have r: "interpreter_runs ?s = []" by (simp add: interpreter_runs_def demo_state_def)
  note t = oversized_payload_never_runs [OF k c big nul ne w, of demo_env 100]
  from t have "interpreter_runs (snd (loop_body demo_env 100 None ?s)) = interpreter_runs ?s"
    by blast
  then have "interpreter_runs (snd (loop_body demo_env 100 None ?s)) = []"
    by (simp only: r)
  with t show ?thesis by blast
qed

section \<open>Running the job\<close>

subsection \<open>Running the job and publishing its results\<close>

lemma names_distinct [simp]:
  "CMD_TXT \<noteq> CMD_RUN" "CMD_TXT \<noteq> OUT_TXT" "CMD_TXT \<noteq> OUT_NEW"
  "CMD_TXT \<noteq> RC_TXT" "CMD_TXT \<noteq> RC_NEW" "CMD_TXT \<noteq> STA_TXT"
  "CMD_TXT \<noteq> STA_NEW" "CMD_TXT \<noteq> LOG_TXT" "CMD_TXT \<noteq> JOB_BAT"
  "CMD_RUN \<noteq> CMD_TXT" "CMD_RUN \<noteq> OUT_TXT" "CMD_RUN \<noteq> OUT_NEW"
  "CMD_RUN \<noteq> RC_TXT" "CMD_RUN \<noteq> RC_NEW" "CMD_RUN \<noteq> STA_TXT"
  "CMD_RUN \<noteq> STA_NEW" "CMD_RUN \<noteq> LOG_TXT" "CMD_RUN \<noteq> JOB_BAT"
  "OUT_TXT \<noteq> CMD_TXT" "OUT_TXT \<noteq> CMD_RUN" "OUT_TXT \<noteq> OUT_NEW"
  "OUT_TXT \<noteq> RC_TXT" "OUT_TXT \<noteq> RC_NEW" "OUT_TXT \<noteq> STA_TXT"
  "OUT_TXT \<noteq> STA_NEW" "OUT_TXT \<noteq> LOG_TXT" "OUT_TXT \<noteq> JOB_BAT"
  "OUT_NEW \<noteq> CMD_TXT" "OUT_NEW \<noteq> CMD_RUN" "OUT_NEW \<noteq> OUT_TXT"
  "OUT_NEW \<noteq> RC_TXT" "OUT_NEW \<noteq> RC_NEW" "OUT_NEW \<noteq> STA_TXT"
  "OUT_NEW \<noteq> STA_NEW" "OUT_NEW \<noteq> LOG_TXT" "OUT_NEW \<noteq> JOB_BAT"
  "RC_TXT \<noteq> CMD_TXT" "RC_TXT \<noteq> CMD_RUN" "RC_TXT \<noteq> OUT_TXT"
  "RC_TXT \<noteq> OUT_NEW" "RC_TXT \<noteq> RC_NEW" "RC_TXT \<noteq> STA_TXT"
  "RC_TXT \<noteq> STA_NEW" "RC_TXT \<noteq> LOG_TXT" "RC_TXT \<noteq> JOB_BAT"
  "RC_NEW \<noteq> CMD_TXT" "RC_NEW \<noteq> CMD_RUN" "RC_NEW \<noteq> OUT_TXT"
  "RC_NEW \<noteq> OUT_NEW" "RC_NEW \<noteq> RC_TXT" "RC_NEW \<noteq> STA_TXT"
  "RC_NEW \<noteq> STA_NEW" "RC_NEW \<noteq> LOG_TXT" "RC_NEW \<noteq> JOB_BAT"
  "STA_TXT \<noteq> CMD_TXT" "STA_TXT \<noteq> CMD_RUN" "STA_TXT \<noteq> OUT_TXT"
  "STA_TXT \<noteq> OUT_NEW" "STA_TXT \<noteq> RC_TXT" "STA_TXT \<noteq> RC_NEW"
  "STA_TXT \<noteq> STA_NEW" "STA_TXT \<noteq> LOG_TXT" "STA_TXT \<noteq> JOB_BAT"
  "STA_NEW \<noteq> CMD_TXT" "STA_NEW \<noteq> CMD_RUN" "STA_NEW \<noteq> OUT_TXT"
  "STA_NEW \<noteq> OUT_NEW" "STA_NEW \<noteq> RC_TXT" "STA_NEW \<noteq> RC_NEW"
  "STA_NEW \<noteq> STA_TXT" "STA_NEW \<noteq> LOG_TXT" "STA_NEW \<noteq> JOB_BAT"
  "LOG_TXT \<noteq> CMD_TXT" "LOG_TXT \<noteq> CMD_RUN" "LOG_TXT \<noteq> OUT_TXT"
  "LOG_TXT \<noteq> OUT_NEW" "LOG_TXT \<noteq> RC_TXT" "LOG_TXT \<noteq> RC_NEW"
  "LOG_TXT \<noteq> STA_TXT" "LOG_TXT \<noteq> STA_NEW" "LOG_TXT \<noteq> JOB_BAT"
  "JOB_BAT \<noteq> CMD_TXT" "JOB_BAT \<noteq> CMD_RUN" "JOB_BAT \<noteq> OUT_TXT"
  "JOB_BAT \<noteq> OUT_NEW" "JOB_BAT \<noteq> RC_TXT" "JOB_BAT \<noteq> RC_NEW"
  "JOB_BAT \<noteq> STA_TXT" "JOB_BAT \<noteq> STA_NEW" "JOB_BAT \<noteq> LOG_TXT"
  by (simp_all add: names)

lemma claim_loop_keeps:
  "nowrite (snd (claim_loop n s)) = nowrite s
   \<and> interpreter_runs (snd (claim_loop n s)) = interpreter_runs s"
proof (induction n arbitrary: s)
  case 0
  show ?case by simp
next
  case (Suc n)
  show ?case by (simp add: Let_def split_beta Suc)
qed

lemma claim_cmd_keeps [simp]:
  "nowrite (snd (claim_cmd s)) = nowrite s"
  "interpreter_runs (snd (claim_cmd s)) = interpreter_runs s"
  by (simp_all add: claim_cmd_def claim_loop_keeps)

lemma exec_job_effect:
  "\<exists>cmd. snd (exec_job_to_out env s) =
           (c_remove OUT_NEW s)\<lparr>files := snd (shell env cmd ((files s)(OUT_NEW := None))),
                                 trace := trace s @ [EvRemove OUT_NEW, EvSystem cmd]\<rparr>"
proof -
  define cmd where "cmd = (case comspec env of
                          None \<Rightarrow> ''COMMAND.COM''
                        | Some c \<Rightarrow> if c = [] then ''COMMAND.COM'' else c)
                @ '' /C '' @ JOB_BAT @ '' > '' @ OUT_NEW
                @ (case mbx_stderr env of
                     None \<Rightarrow> []
                   | Some v \<Rightarrow> if v \<noteq> [] \<and> hd v = CHR ''1'' then '' 2>&1'' else [])"
  have "snd (exec_job_to_out env s) =
           (c_remove OUT_NEW s)\<lparr>files := snd (shell env cmd ((files s)(OUT_NEW := None))),
                                 trace := trace s @ [EvRemove OUT_NEW, EvSystem cmd]\<rparr>"
    unfolding exec_job_to_out_def Let_def split_beta cmd_def [symmetric]
    by (simp add: c_remove_def)
  then show ?thesis ..
qed

lemma exec_job_nowrite [simp]: "nowrite (snd (exec_job_to_out env s)) = nowrite s"
  using exec_job_effect [of env s] by (auto simp: c_remove_def)

lemma exec_job_files:
  "\<exists>cmd. files (snd (exec_job_to_out env s)) = snd (shell env cmd ((files s)(OUT_NEW := None)))
         \<and> interpreter_runs (snd (exec_job_to_out env s)) = interpreter_runs s @ [EvSystem cmd]"
proof -
  from exec_job_effect [of env s] obtain cmd where
    e: "snd (exec_job_to_out env s) =
           (c_remove OUT_NEW s)\<lparr>files := snd (shell env cmd ((files s)(OUT_NEW := None))),
                                 trace := trace s @ [EvRemove OUT_NEW, EvSystem cmd]\<rparr>" ..
  have "files (snd (exec_job_to_out env s)) = snd (shell env cmd ((files s)(OUT_NEW := None)))
         \<and> interpreter_runs (snd (exec_job_to_out env s)) = interpreter_runs s @ [EvSystem cmd]"
    unfolding e by (simp add: interpreter_runs_def)
  then show ?thesis ..
qed

lemma fopen_w_other: "q \<noteq> p \<Longrightarrow> files (snd (fopen_w p s)) q = files s q"
  by (simp add: fopen_w_def Let_def)

lemma c_rename_other:
  "q \<noteq> a \<Longrightarrow> q \<noteq> b \<Longrightarrow> files (snd (c_rename a b s)) q = files s q"
  by (simp add: c_rename_def Let_def split: option.splits)

text \<open>
  \<open>publish_results\<close> in two halves: the state after the output has been handled differs
  from the start only in the two output files, the log and the trace; \<open>publish_rc_part\<close>
  is the handling of the return code from there, as the source has it.
\<close>

definition publish_rc_part :: "gstate \<Rightarrow> gstate" where
  "publish_rc_part s4 =
      (if file_exists RC_NEW s4
         then (let s5 = c_remove RC_TXT s4;
                   (moved2, s6) = c_rename RC_NEW RC_TXT s5
               in if \<not> moved2
                  then log_line (''ERROR: failed to rename RC.NEW -> RC.TXT (errno=''
                                 @ dec_int (errno s6) @ '')'') s6
                  else s6)
         else (let (ok, s5) = fopen_w RC_TXT s4
               in if ok then fputs (''1'' @ CRLF) RC_TXT s5 else s5))"

lemma publish_results_tail:
  "\<exists>s4. publish_results sys_rc s = publish_rc_part s4
        \<and> nowrite s4 = nowrite s \<and> interpreter_runs s4 = interpreter_runs s
        \<and> (\<forall>q. q \<noteq> OUT_NEW \<longrightarrow> q \<noteq> OUT_TXT \<longrightarrow> files s4 q = files s q)"
proof -
  define s1 where "s1 = (if \<not> file_exists OUT_NEW s
                then (let (ok, t) = fopen_w OUT_NEW s
                      in if ok
                         then fputs (''ERROR: OUT.NEW missing (system rc='' @ dec_int sys_rc @ '')'' @ CRLF)
                                OUT_NEW t
                         else t)
                else s)"
  have n1: "nowrite s1 = nowrite s" and i1: "interpreter_runs s1 = interpreter_runs s"
    by (simp_all add: s1_def split_beta)
  have r1: "files s1 q = files s q" if "q \<noteq> OUT_NEW" for q
    using that by (simp add: s1_def split_beta fopen_w_other fputs_other)
  define s3 where "s3 = snd (c_rename OUT_NEW OUT_TXT (c_remove OUT_TXT s1))"
  have n3: "nowrite s3 = nowrite s" and i3: "interpreter_runs s3 = interpreter_runs s"
    by (simp_all add: s3_def n1 i1)
  have r3: "files s3 q = files s q" if "q \<noteq> OUT_NEW" "q \<noteq> OUT_TXT" for q
    using that by (simp add: s3_def c_rename_other r1)
  define s4 where "s4 = (if \<not> fst (c_rename OUT_NEW OUT_TXT (c_remove OUT_TXT s1))
                then log_line (''ERROR: failed to rename OUT.NEW -> OUT.TXT (errno=''
                               @ dec_int (errno s3) @ '')'') s3
                else s3)"
  have n4: "nowrite s4 = nowrite s" and i4: "interpreter_runs s4 = interpreter_runs s"
    by (simp_all add: s4_def n3 i3)
  have r4: "\<forall>q. q \<noteq> OUT_NEW \<longrightarrow> q \<noteq> OUT_TXT \<longrightarrow> files s4 q = files s q"
    by (simp add: s4_def r3)
  have p: "publish_results sys_rc s = publish_rc_part s4"
    unfolding publish_results_def publish_rc_part_def s4_def s3_def s1_def Let_def split_beta ..
  from p n4 i4 r4 show ?thesis by blast
qed

lemma publish_rc_part_keeps [simp]:
  "nowrite (publish_rc_part s) = nowrite s"
  "interpreter_runs (publish_rc_part s) = interpreter_runs s"
  by (simp_all add: publish_rc_part_def Let_def split_beta)

lemma publish_results_keeps [simp]:
  "nowrite (publish_results v s) = nowrite s"
  "interpreter_runs (publish_results v s) = interpreter_runs s"
  using publish_results_tail [of v s] by auto

lemma publish_rc_part_rc:
  "RC_TXT \<notin> nowrite s \<Longrightarrow>
   files (publish_rc_part s) RC_TXT
     = Some (case files s RC_NEW of None \<Rightarrow> ''1'' @ CRLF | Some x \<Rightarrow> x)"
  by (cases "files s RC_NEW")
     (simp_all add: publish_rc_part_def file_exists_def Let_def split_beta fopen_w_def fputs_def
        c_rename_def c_remove_def)

lemma publish_results_rc:
  assumes "RC_TXT \<notin> nowrite s"
  shows "files (publish_results sys_rc s) RC_TXT
         = Some (case files s RC_NEW of None \<Rightarrow> ''1'' @ CRLF | Some x \<Rightarrow> x)"
proof -
  from publish_results_tail [of sys_rc s] obtain s4 where
    p: "publish_results sys_rc s = publish_rc_part s4" and n: "nowrite s4 = nowrite s"
    and r: "\<forall>q. q \<noteq> OUT_NEW \<longrightarrow> q \<noteq> OUT_TXT \<longrightarrow> files s4 q = files s q" by blast
  have "files s4 RC_NEW = files s RC_NEW" using r by simp
  then show ?thesis unfolding p using publish_rc_part_rc [of s4] assms n by simp
qed

text \<open>Without a staged return code the published name is opened for writing itself.\<close>

lemma publish_results_direct:
  assumes "files s RC_NEW = None"
  shows "EvFopenW RC_TXT \<in> set (trace (publish_results sys_rc s))"
proof -
  from publish_results_tail [of sys_rc s] obtain s4 where
    p: "publish_results sys_rc s = publish_rc_part s4"
    and r: "\<forall>q. q \<noteq> OUT_NEW \<longrightarrow> q \<noteq> OUT_TXT \<longrightarrow> files s4 q = files s q" by blast
  have "files s4 RC_NEW = None" using r assms by simp
  then show ?thesis unfolding p
    by (simp add: publish_rc_part_def file_exists_def split_beta fopen_w_def Let_def)
qed

section \<open>The job path and the return code\<close>

lemma build_job_rc_new: "files (snd (snd (build_job_bat_from_cmd p s))) RC_NEW = None"
proof -
  have a: "files (c_remove RC_NEW (c_remove JOB_BAT s)) RC_NEW = None" by simp
  have b: "files (snd (fopen_w JOB_BAT (c_remove RC_NEW (c_remove JOB_BAT s)))) RC_NEW = None"
    by (simp add: fopen_w_other)
  show ?thesis
    unfolding build_job_bat_from_cmd_def Let_def split_beta
    by (simp add: copy_payload_keeps fputs_other a b split: option.splits)
qed


text \<open>
  The job path of \<open>process_cmd\<close>: the interpreter runs once, in a directory without
  \<open>RC.NEW\<close>, and the results are published from the directory it leaves.
\<close>

lemma process_cmd_job:
  assumes rd: "read_first_nonempty_line CMD_RUN (set_status ''RUNNING'' s) = Some first"
    and ne: "\<not> is_exit_cmd first"
    and yb: "fst (build_job_bat_from_cmd CMD_RUN (set_status ''RUNNING'' s))"
  shows "\<exists>t v cmd fs.
         process_cmd env idle s =
           (False, ms_sleep (nat idle) (set_status ''READY'' (c_remove CMD_RUN (publish_results v t))))
         \<and> nowrite t = nowrite s \<and> fs RC_NEW = None \<and> files t = snd (shell env cmd fs)
         \<and> interpreter_runs t = interpreter_runs s @ [EvSystem cmd]"
proof -
  define s1 where "s1 = set_status ''RUNNING'' s"
  have n1: "nowrite s1 = nowrite s" and i1: "interpreter_runs s1 = interpreter_runs s"
    by (simp_all add: s1_def)
  define b where "b = build_job_bat_from_cmd CMD_RUN s1"
  define s2 where "s2 = snd (snd b)"
  have n2: "nowrite s2 = nowrite s" and i2: "interpreter_runs s2 = interpreter_runs s"
    by (simp_all add: s2_def b_def n1 i1)
  define s4 where "s4 = c_remove RC_TXT (c_remove OUT_TXT
      (log_line (''Executing job (payload='' @ dec_int (fst (snd b)) @ '' bytes)'') s2))"
  have n4: "nowrite s4 = nowrite s" and i4: "interpreter_runs s4 = interpreter_runs s"
    by (simp_all add: s4_def n2 i2)
  have r4: "files s4 RC_NEW = None"
    using build_job_rc_new [of CMD_RUN s1] by (simp add: s4_def s2_def b_def)
  define e where "e = exec_job_to_out env s4"
  define t where "t = log_line (''system() rc='' @ dec_int (fst e)) (snd e)"
  from exec_job_files [of env s4] obtain cmd where
    f: "files (snd e) = snd (shell env cmd ((files s4)(OUT_NEW := None)))"
    and r: "interpreter_runs (snd e) = interpreter_runs s4 @ [EvSystem cmd]"
    unfolding e_def by blast
  have p: "process_cmd env idle s =
     (False, ms_sleep (nat idle) (set_status ''READY'' (c_remove CMD_RUN
        (publish_results (fst e) t))))"
    unfolding t_def e_def s4_def s2_def b_def s1_def
    using yb rd ne
    by (simp add: process_cmd_def Let_def split_beta)
  have "nowrite t = nowrite s" by (simp add: t_def e_def n4)
  moreover have "((files s4)(OUT_NEW := None)) RC_NEW = None" using r4 by simp
  moreover have "files t = snd (shell env cmd ((files s4)(OUT_NEW := None)))"
    by (simp add: t_def f)
  moreover have "interpreter_runs t = interpreter_runs s @ [EvSystem cmd]"
    by (simp add: t_def r i4)
  ultimately show ?thesis using p by blast
qed

text \<open>On every other path of \<open>process_cmd\<close> no interpreter runs.\<close>

lemma process_cmd_cases:
  "interpreter_runs (snd (process_cmd env idle s)) = interpreter_runs s
   \<or> (\<exists>t v cmd fs.
         process_cmd env idle s =
           (False, ms_sleep (nat idle) (set_status ''READY'' (c_remove CMD_RUN (publish_results v t))))
         \<and> nowrite t = nowrite s \<and> fs RC_NEW = None \<and> files t = snd (shell env cmd fs)
         \<and> interpreter_runs t = interpreter_runs s @ [EvSystem cmd])"
proof (cases "\<exists>first. read_first_nonempty_line CMD_RUN (set_status ''RUNNING'' s) = Some first
                \<and> \<not> is_exit_cmd first
                \<and> fst (build_job_bat_from_cmd CMD_RUN (set_status ''RUNNING'' s))")
  case True
  then show ?thesis using process_cmd_job [of s _ env idle] by blast
next
  case False
  have "interpreter_runs (snd (process_cmd env idle s)) = interpreter_runs s"
  proof (cases "read_first_nonempty_line CMD_RUN (set_status ''RUNNING'' s)")
    case None
    then show ?thesis by (simp add: process_cmd_def Let_def)
  next
    case (Some first)
    show ?thesis
    proof (cases "is_exit_cmd first")
      case True
      then show ?thesis by (simp add: process_cmd_def Some Let_def)
    next
      case ne: False
      with False Some have "\<not> fst (build_job_bat_from_cmd CMD_RUN (set_status ''RUNNING'' s))"
        by simp
      then show ?thesis by (simp add: process_cmd_def Some ne Let_def split_beta)
    qed
  qed
  then show ?thesis ..
qed

text \<open>A pass of the loop that is not stopped by ESC, split at the claim.\<close>

lemma loop_body_phase:
  assumes "key \<noteq> Some 27"
  shows "\<exists>s1. nowrite s1 = nowrite s \<and> interpreter_runs s1 = interpreter_runs s
          \<and> loop_body env idle key s =
              (if file_exists CMD_RUN s1 then process_cmd env idle s1
               else (False, ms_sleep (nat idle) s1))"
proof -
  define s1 where "s1 = (if \<not> file_exists CMD_RUN s \<and> file_exists CMD_TXT s
                      then (let (claimed, t) = claim_cmd s
                            in if claimed then log_line ''Claimed CMD.TXT -> CMD.RUN'' t else t)
                      else s)"
  have "nowrite s1 = nowrite s" "interpreter_runs s1 = interpreter_runs s"
    by (simp_all add: s1_def split_beta)
  moreover have "loop_body env idle key s =
              (if file_exists CMD_RUN s1 then process_cmd env idle s1
               else (False, ms_sleep (nat idle) s1))"
    using assms unfolding loop_body_def s1_def Let_def by simp
  ultimately show ?thesis by blast
qed

lemma copy_payload_fits:
  "tot + int (length rest) \<le> MAX_PAYLOAD \<Longrightarrow> fst (copy_payload rest tot s)"
proof (induction rest tot s rule: copy_payload.induct)
  case (1 rest tot s)
  show ?case
  proof (cases "fgets MAX_LINE rest")
    case None
    then show ?thesis by (subst copy_payload.simps) simp
  next
    case (Some x)
    obtain line rest' where x: "x = (line, rest')" by (cases x)
    have t: "fgets_take 511 rest = (line, rest')"
      using Some x by (auto simp: fgets_def MAX_LINE_def split: if_splits)
    have split: "rest = line @ rest'" using t by (rule fgets_take_split)
    have "strlen line \<le> length line" by (simp add: strlen_def cstr_def length_takeWhile_le)
    then have le: "tot + int (strlen line) + int (length rest') \<le> MAX_PAYLOAD"
      using "1.prems" split by simp
    then have nb: "\<not> tot + int (strlen line) > MAX_PAYLOAD" by simp
    have eq: "copy_payload rest tot s
              = copy_payload rest' (tot + int (strlen line)) (fputs (cstr line) JOB_BAT s)"
      using Some x nb by (subst copy_payload.simps) simp
    show ?thesis unfolding eq
      by (rule "1.IH" [OF Some x [symmetric] refl nb le])
  qed
qed

lemma build_job_fits:
  assumes "files s CMD_RUN = Some c" and "JOB_BAT \<notin> nowrite s"
    and "int (length c) \<le> MAX_PAYLOAD"
  shows "fst (build_job_bat_from_cmd CMD_RUN s)"
proof -
  have "files (c_remove RC_NEW (c_remove JOB_BAT s)) CMD_RUN = Some c"
    using assms(1) by simp
  moreover have "fst (copy_payload c 0 t)" for t
    using assms(3) by (intro copy_payload_fits) simp
  ultimately show ?thesis using assms(2)
    by (simp add: build_job_bat_from_cmd_def Let_def split_beta)
qed



text \<open>The sample command \<open>dir\<close> takes the job path, whatever the interpreter is.\<close>

lemma demo_dir_job:
  "\<exists>t v cmd fs.
     loop_body env 100 None (demo_state [CMD_RUN \<mapsto> demo_dir_cmd]) =
       (False, ms_sleep (nat 100) (set_status ''READY'' (c_remove CMD_RUN (publish_results v t))))
     \<and> nowrite t = {} \<and> fs RC_NEW = None \<and> files t = snd (shell env cmd fs)
     \<and> interpreter_runs t = [EvSystem cmd]"
proof -
  let ?s = "demo_state [CMD_RUN \<mapsto> demo_dir_cmd]"
  have c: "files ?s CMD_RUN = Some demo_dir_cmd" by (simp add: demo_state_def)
  have l: "loop_body env 100 None ?s = process_cmd env 100 ?s"
    by (rule loop_body_claimed [OF _ c]) simp
  have c1: "files (set_status ''RUNNING'' ?s) CMD_RUN = Some demo_dir_cmd"
    using c by (simp add: set_status_other)
  have "first_nonempty (''dir'' @ [LF]) = Some ''dir''"
    by (rule first_nonempty_word) (simp_all add: isspace_def NUL_def LF_def CR_def)
  then have rd: "read_first_nonempty_line CMD_RUN (set_status ''RUNNING'' ?s) = Some ''dir''"
    using c1 by (simp add: read_first_nonempty_line_def demo_dir_cmd_def)
  have ne: "\<not> is_exit_cmd ''dir''" by code_simp
  have yb: "fst (build_job_bat_from_cmd CMD_RUN (set_status ''RUNNING'' ?s))"
    by (rule build_job_fits [OF c1])
       (simp_all add: demo_state_def demo_dir_cmd_def MAX_PAYLOAD_def)
  have n: "nowrite ?s = {}" and i: "interpreter_runs ?s = []"
    by (simp_all add: demo_state_def interpreter_runs_def)
  from process_cmd_job [OF rd ne yb, of env 100] show ?thesis
    unfolding l n i by simp
qed

lemma trace_grows:
  "e \<in> set (trace s) \<Longrightarrow> e \<in> set (trace (c_remove p s))"
  "e \<in> set (trace s) \<Longrightarrow> e \<in> set (trace (ms_sleep n s))"
  "e \<in> set (trace s) \<Longrightarrow> e \<in> set (trace (set_status st s))"
  by (simp_all add: c_remove_def ms_sleep_def set_status_def write_text_atomic_def Let_def
        split_beta fopen_w_def c_rename_def split: option.splits)

text \<open>
  Claim C4. Every producer changes a published name only by writing the staging name
  and renaming it. The guest breaks this where \<open>publish_results\<close> finds no \<open>RC.NEW\<close>: it
  opens the published name \<open>RC.TXT\<close> itself for writing, where the header of the source
  and its sibling \<open>write_error_output\<close> stage \<open>RC.NEW\<close> and rename it. Here the command
  is \<open>dir\<close> and the interpreter could not be started.
\<close>

theorem fallback_rc_written_directly:
  "EvFopenW RC_TXT
     \<in> set (trace (snd (loop_body demo_env 100 None (demo_state [CMD_RUN \<mapsto> demo_dir_cmd]))))
   \<and> files (snd (loop_body demo_env 100 None (demo_state [CMD_RUN \<mapsto> demo_dir_cmd]))) RC_TXT
       = Some (''1'' @ CRLF)"
proof -
  from demo_dir_job [of demo_env] obtain t v cmd fs where
    l: "loop_body demo_env 100 None (demo_state [CMD_RUN \<mapsto> demo_dir_cmd]) =
       (False, ms_sleep (nat 100) (set_status ''READY'' (c_remove CMD_RUN (publish_results v t))))"
    and n: "nowrite t = {}" and r: "fs RC_NEW = None"
    and f: "files t = snd (shell demo_env cmd fs)" by blast
  have rn: "files t RC_NEW = None" using r by (simp add: f demo_env_def demo_shell_quiet_def)
  have "EvFopenW RC_TXT \<in> set (trace (publish_results v t))"
    using rn by (rule publish_results_direct)
  then have a: "EvFopenW RC_TXT \<in> set (trace (ms_sleep (nat 100) (set_status ''READY''
                  (c_remove CMD_RUN (publish_results v t)))))"
    by (intro trace_grows)
  have "files (publish_results v t) RC_TXT = Some (''1'' @ CRLF)"
    using publish_results_rc [of t v] n rn by simp
  then have b: "files (ms_sleep (nat 100) (set_status ''READY''
                  (c_remove CMD_RUN (publish_results v t)))) RC_TXT = Some (''1'' @ CRLF)"
    by (simp add: set_status_other)
  show ?thesis unfolding l snd_conv using a b ..
qed

text \<open>
  Claim C10. A pass of the loop that ran the interpreter, so that a claimed command was
  executed to its end, leaves a return-code file whenever \<open>RC.TXT\<close> can be opened for
  writing; and when the interpreter creates no \<open>RC.NEW\<close>, that file holds \<open>1\<close>, written
  by the guest as a fallback.
\<close>

theorem completed_job_has_return_code:
  assumes "interpreter_runs (snd (loop_body env idle key s)) \<noteq> interpreter_runs s"
    and "RC_TXT \<notin> nowrite s"
  shows "files (snd (loop_body env idle key s)) RC_TXT \<noteq> None
         \<and> ((\<forall>cmd fs. fs RC_NEW = None \<longrightarrow> snd (shell env cmd fs) RC_NEW = None)
              \<longrightarrow> files (snd (loop_body env idle key s)) RC_TXT = Some (''1'' @ CRLF))"
proof -
  have k: "key \<noteq> Some 27"
  proof
    assume "key = Some 27"
    then have "interpreter_runs (snd (loop_body env idle key s)) = interpreter_runs s"
      by (simp add: loop_body_esc)
    with assms(1) show False by simp
  qed
  from loop_body_phase [OF k, of s env idle] obtain s1 where
    n1: "nowrite s1 = nowrite s" and i1: "interpreter_runs s1 = interpreter_runs s"
    and l: "loop_body env idle key s =
              (if file_exists CMD_RUN s1 then process_cmd env idle s1
               else (False, ms_sleep (nat idle) s1))" by blast
  have ex: "file_exists CMD_RUN s1"
  proof (rule ccontr)
    assume "\<not> file_exists CMD_RUN s1"
    then have "interpreter_runs (snd (loop_body env idle key s)) = interpreter_runs s"
      by (simp add: l i1)
    with assms(1) show False by simp
  qed
  then have l': "loop_body env idle key s = process_cmd env idle s1" by (simp add: l)
  from assms(1) have "interpreter_runs (snd (process_cmd env idle s1)) \<noteq> interpreter_runs s1"
    by (simp add: l' i1)
  with process_cmd_cases [of env idle s1] obtain t v cmd fs where
    p: "process_cmd env idle s1 =
           (False, ms_sleep (nat idle) (set_status ''READY'' (c_remove CMD_RUN (publish_results v t))))"
    and nt: "nowrite t = nowrite s1" and r: "fs RC_NEW = None"
    and f: "files t = snd (shell env cmd fs)" by blast
  have w: "RC_TXT \<notin> nowrite t" using assms(2) nt n1 by simp
  have e: "files (snd (loop_body env idle key s)) RC_TXT
           = Some (case files t RC_NEW of None \<Rightarrow> ''1'' @ CRLF | Some x \<Rightarrow> x)"
    unfolding l' p snd_conv using publish_results_rc [OF w, of v]
    by (simp add: set_status_other)
  have "(\<forall>cmd fs. fs RC_NEW = None \<longrightarrow> snd (shell env cmd fs) RC_NEW = None)
        \<longrightarrow> files t RC_NEW = None"
    using r f by simp
  then show ?thesis unfolding e by auto
qed

theorem completed_job_has_return_code_witness:
  "interpreter_runs (snd (loop_body demo_env 100 None (demo_state [CMD_RUN \<mapsto> demo_dir_cmd])))
     \<noteq> interpreter_runs (demo_state [CMD_RUN \<mapsto> demo_dir_cmd])
   \<and> RC_TXT \<notin> nowrite (demo_state [CMD_RUN \<mapsto> demo_dir_cmd])
   \<and> files (snd (loop_body demo_env 100 None (demo_state [CMD_RUN \<mapsto> demo_dir_cmd]))) RC_TXT
       = Some (''1'' @ CRLF)"
proof -
  let ?s = "demo_state [CMD_RUN \<mapsto> demo_dir_cmd]"
  from demo_dir_job [of demo_env] obtain t v cmd fs where
    l: "loop_body demo_env 100 None ?s =
       (False, ms_sleep (nat 100) (set_status ''READY'' (c_remove CMD_RUN (publish_results v t))))"
    and i: "interpreter_runs t = [EvSystem cmd]" by blast
  have "interpreter_runs (snd (loop_body demo_env 100 None ?s)) = [EvSystem cmd]"
    unfolding l snd_conv by (simp add: i)
  moreover have "interpreter_runs ?s = []" by (simp add: demo_state_def interpreter_runs_def)
  ultimately have a: "interpreter_runs (snd (loop_body demo_env 100 None ?s)) \<noteq> interpreter_runs ?s"
    by simp
  have w: "RC_TXT \<notin> nowrite ?s" by (simp add: demo_state_def)
  have q: "\<forall>cmd fs. fs RC_NEW = None \<longrightarrow> snd (shell demo_env cmd fs) RC_NEW = None"
    by (simp add: demo_env_def demo_shell_quiet_def)
  from completed_job_has_return_code [OF a w] q a w show ?thesis by blast
qed




end
